theory Spec2Isabelle
  imports Complex_Main "HOL-Library.AList"
begin

section \<open>Data model\<close>

text \<open>
  The script \<^verbatim>\<open>finaldraft.py\<close> is sequential glue over pandas, matplotlib/seaborn,
  logging and the \<^verbatim>\<open>schedule\<close> package.  Its own control flow (the try/except blocks,
  the order of the stages, the polling loop) is embedded function by function.  What
  the libraries compute on floating-point data is not fixed here: the type \<open>'f\<close> stands
  for float64, and the numeric library routines are fields of the record \<open>lib\<close>.
\<close>

text \<open>Exceptions (all of them subclasses of Python's \<^verbatim>\<open>Exception\<close>).\<close>

datatype exn =
    FileNotFoundError string
  | KeyError string
  | TypeError string
  | ValueError string
  | OtherError string

text \<open>
  A scalar held in a data frame: an int64, a float64 other than NaN, a text object, a
  boolean, or the missing value NaN.
\<close>

datatype 'f cell = CInt int | CFloat 'f | CStr string | CBool bool | CNaN

text \<open>A data frame: named columns, in order.\<close>

type_synonym 'f table = "(string \<times> 'f cell list) list"

datatype level = INFO | ERROR

text \<open>The messages the script logs (the f-strings of the source, unformatted).\<close>

datatype 'f msg =
    DataLoaded
  | ErrorLoading exn
  | DataProcessed
  | ErrorProcessing exn
  | DataSaved string
  | ErrorSaving exn
  | AvgAge 'f
  | SexDistribution "('f cell \<times> nat) list"
  | AvgCharges 'f
  | UniqueRegions "'f cell list"
  | ErrorVisualizing exn

record 'f chart =
  title :: string
  xlabel :: string
  ylabel :: string
  palette :: string
  bars :: "('f cell \<times> 'f) list"

text \<open>
  Everything outside the Python heap that the script reads or changes: the clock (in
  microseconds, the resolution of \<^verbatim>\<open>datetime\<close>), the log file (each record carries
  \<^verbatim>\<open>asctime\<close>, the level and the message), the files on disk and the charts displayed.
\<close>

record 'f world =
  clock :: nat
  logfile :: "(nat \<times> level \<times> 'f msg) list"
  files :: "string \<rightharpoonup> string"
  shown :: "'f chart list"

text \<open>
  The library routines the script calls whose results are not determined by the script:
  CSV parsing and printing, the operating system's refusal to write a path, the
  per-value conversions behind \<^verbatim>\<open>astype\<close>, float64 arithmetic, and the plotting backend.
\<close>

record 'f lib =
  parse_csv :: "string \<Rightarrow> exn + 'f table"
  csv_text :: "'f table \<Rightarrow> bool \<Rightarrow> string"
  write_error :: "string \<Rightarrow> exn option"
  to_float :: "'f cell \<Rightarrow> exn + 'f cell"
  to_int :: "'f cell \<Rightarrow> exn + 'f cell"
  fmean :: "'f cell list \<Rightarrow> 'f"
  round_nd :: "'f \<Rightarrow> nat \<Rightarrow> 'f"
  group_means :: "'f cell list \<Rightarrow> 'f cell list \<Rightarrow> exn + ('f cell \<times> 'f) list"
  plt_figure :: "exn option"
  render :: "'f chart \<Rightarrow> exn option"

section \<open>Logging\<close>

definition logging_info :: "'f msg \<Rightarrow> 'f world \<Rightarrow> 'f world" where
  "logging_info m w = w\<lparr>logfile := logfile w @ [(clock w, INFO, m)]\<rparr>"

definition logging_error :: "'f msg \<Rightarrow> 'f world \<Rightarrow> 'f world" where
  "logging_error m w = w\<lparr>logfile := logfile w @ [(clock w, ERROR, m)]\<rparr>"

section \<open>Data frame access\<close>

text \<open>
  Modelled from the spec: the column lookup \<^verbatim>\<open>df[name]\<close> of pandas, which is not part of
  the repository's source.  The spec (4.4): "missing column - fails with a KeyError-kind
  condition".
\<close>

definition getitem :: "'f table \<Rightarrow> string \<Rightarrow> exn + 'f cell list" where
  "getitem tbl name = (case map_of tbl name of None \<Rightarrow> Inl (KeyError name) | Some col \<Rightarrow> Inr col)"

text \<open>
  Modelled from the spec: the column assignment \<^verbatim>\<open>df[name] = col\<close> of pandas, which is
  not part of the repository's source.  The spec (4.2): the Table comes back "with charges
  cast to floating-point and age cast to integer, in place".  The column is replaced where
  it stands; a new name is appended.
\<close>

definition setitem :: "'f table \<Rightarrow> string \<Rightarrow> 'f cell list \<Rightarrow> 'f table" where
  "setitem tbl name col = AList.update name col tbl"

text \<open>
  Modelled from the spec: \<^verbatim>\<open>Series.astype\<close> of pandas, which is not part of the
  repository's source.  The spec (4.2): "Fails with a TypeConversionError-kind condition if
  any value in either column cannot be converted", "either all rows convert or the whole
  operation fails".  Every value is converted, in order; the first failing conversion
  raises, and there is no result unless every value converts.  The conversion of one value
  is the library's (\<open>to_float\<close>, \<open>to_int\<close>).
\<close>

fun astype :: "('a \<Rightarrow> exn + 'b) \<Rightarrow> 'a list \<Rightarrow> exn + 'b list" where
  "astype f [] = Inr []"
| "astype f (x # xs) =
     (case f x of
        Inl e \<Rightarrow> Inl e
      | Inr y \<Rightarrow> (case astype f xs of Inl e \<Rightarrow> Inl e | Inr ys \<Rightarrow> Inr (y # ys)))"

section \<open>Loader, Transformer, Persister\<close>

text \<open>
  Modelled from the spec: \<^verbatim>\<open>pd.read_csv\<close>, which is not part of the repository's source.
  The spec (4.1): "Fails with an IOError-kind condition if the path does not exist or
  content is not parseable as delimited tabular text".
\<close>

definition read_csv :: "'f lib \<Rightarrow> string \<Rightarrow> 'f world \<Rightarrow> exn + 'f table" where
  "read_csv L file_path w =
     (case files w file_path of
        None \<Rightarrow> Inl (FileNotFoundError file_path)
      | Some text \<Rightarrow> parse_csv L text)"

definition load_data :: "'f lib \<Rightarrow> string \<Rightarrow> 'f world \<Rightarrow> (exn + 'f table) \<times> 'f world" where
  "load_data L file_path w =
     (case read_csv L file_path w of
        Inr tbl \<Rightarrow> (Inr tbl, logging_info DataLoaded w)
      | Inl e \<Rightarrow> (Inl e, logging_error (ErrorLoading e) w))"

text \<open>
  The body of the \<^verbatim>\<open>try\<close> of \<^verbatim>\<open>process_data\<close>.  The data frame is a mutable object
  shared with the caller, so the second component is the frame as the body leaves it,
  also when it raises.
\<close>

definition process_body :: "'f lib \<Rightarrow> 'f table \<Rightarrow> (exn + unit) \<times> 'f table" where
  "process_body L tbl =
     (case getitem tbl ''charges'' of
        Inl e \<Rightarrow> (Inl e, tbl)
      | Inr cs \<Rightarrow>
         (case astype (to_float L) cs of
            Inl e \<Rightarrow> (Inl e, tbl)
          | Inr cs' \<Rightarrow>
             (let tbl1 = setitem tbl ''charges'' cs' in
              case getitem tbl1 ''age'' of
                Inl e \<Rightarrow> (Inl e, tbl1)
              | Inr ags \<Rightarrow>
                 (case astype (to_int L) ags of
                    Inl e \<Rightarrow> (Inl e, tbl1)
                  | Inr ags' \<Rightarrow> (Inr (), setitem tbl1 ''age'' ags')))))"

text \<open>
  \<^verbatim>\<open>process_data\<close>: the result (the frame itself, or the exception re-raised after
  logging), the caller's frame after the call, and the world.
\<close>

definition process_data ::
  "'f lib \<Rightarrow> 'f table \<Rightarrow> 'f world \<Rightarrow> (exn + 'f table) \<times> 'f table \<times> 'f world" where
  "process_data L tbl w =
     (case process_body L tbl of
        (Inr u, tbl') \<Rightarrow> (Inr tbl', tbl', logging_info DataProcessed w)
      | (Inl e, tbl') \<Rightarrow> (Inl e, tbl', logging_error (ErrorProcessing e) w))"

text \<open>
  Modelled from the spec: \<^verbatim>\<open>DataFrame.to_csv\<close>, which is not part of the repository's
  source.  The spec (4.3): "serializes the Table as delimited text", "overwriting any
  existing file at that path", "Fails with an IOError-kind condition on write failure".  A
  failed write is taken to leave the files as they were.
\<close>

definition to_csv :: "'f lib \<Rightarrow> 'f table \<Rightarrow> string \<Rightarrow> bool \<Rightarrow> 'f world \<Rightarrow> exn + 'f world" where
  "to_csv L tbl file_path index w =
     (case write_error L file_path of
        Some e \<Rightarrow> Inl e
      | None \<Rightarrow> Inr (w\<lparr>files := (files w)(file_path \<mapsto> csv_text L tbl index)\<rparr>))"

definition save_data :: "'f lib \<Rightarrow> 'f table \<Rightarrow> string \<Rightarrow> 'f world \<Rightarrow> (exn + unit) \<times> 'f world" where
  "save_data L tbl file_path w =
     (case to_csv L tbl file_path False w of
        Inr w' \<Rightarrow> (Inr (), logging_info (DataSaved file_path) w')
      | Inl e \<Rightarrow> (Inl e, logging_error (ErrorSaving e) w))"

section \<open>Analyzer\<close>

record 'f PatientsInfo =
  df :: "'f table"

text \<open>
  Modelled from the spec: \<^verbatim>\<open>Series.mean\<close> of pandas, which is not part of the
  repository's source.  The spec (4.4): "mean of age", with "No error conditions beyond
  those inherited from malformed input".  The mean is defined on a numeric column (the
  float64 routine \<open>fmean\<close>, which skips NaN); a column that holds text raises TypeError.
\<close>

fun is_numeric :: "'f cell \<Rightarrow> bool" where
  "is_numeric (CStr s) = False"
| "is_numeric c = True"

definition mean :: "'f lib \<Rightarrow> 'f cell list \<Rightarrow> exn + 'f" where
  "mean L col = (if list_all is_numeric col then Inr (fmean L col) else Inl (TypeError ''mean''))"

fun isna :: "'f cell \<Rightarrow> bool" where
  "isna CNaN = True"
| "isna c = False"

text \<open>
  Modelled from the spec: \<^verbatim>\<open>Series.unique\<close> of pandas, which is not part of the
  repository's source.  The spec: "distinct values of region, as an ordered list in
  first-encounter order".  The values are scanned once, and a value not seen before is
  appended.
\<close>

definition unique :: "'a list \<Rightarrow> 'a list" where
  "unique xs = foldl (\<lambda>seen x. if x \<in> set seen then seen else seen @ [x]) [] xs"

text \<open>
  Modelled from the spec: \<^verbatim>\<open>Series.value_counts\<close> of pandas, which is not part of the
  repository's source.  The spec: "count of rows per distinct value of sex, as a mapping
  (iteration order = descending frequency, ties broken by input encounter order)".
  Missing entries are not values and are left out (pandas' default \<^verbatim>\<open>dropna=True\<close>); the
  remaining values are tallied in encounter order, and the tally is sorted by descending
  count with a stable sort.
\<close>

fun count_into :: "'a \<Rightarrow> ('a \<times> nat) list \<Rightarrow> ('a \<times> nat) list" where
  "count_into x [] = [(x, 1)]"
| "count_into x ((k, n) # kvs) =
     (if k = x then (k, Suc n) # kvs else (k, n) # count_into x kvs)"

definition tally :: "'a list \<Rightarrow> ('a \<times> nat) list" where
  "tally xs = foldl (\<lambda>acc x. count_into x acc) [] xs"

definition sort_values_desc :: "('a \<times> nat) list \<Rightarrow> ('a \<times> nat) list" where
  "sort_values_desc kvs = sort_key (\<lambda>kv. - int (snd kv)) kvs"

definition value_counts :: "'f cell list \<Rightarrow> ('f cell \<times> nat) list" where
  "value_counts col = sort_values_desc (tally (filter (\<lambda>c. \<not> isna c) col))"

text \<open>A Python dict keeps insertion order: \<^verbatim>\<open>to_dict\<close> and \<^verbatim>\<open>tolist\<close> keep the entries as they are.\<close>

definition analyze_ages :: "'f lib \<Rightarrow> 'f PatientsInfo \<Rightarrow> exn + 'f" where
  "analyze_ages L self =
     (case getitem (df self) ''age'' of
        Inl e \<Rightarrow> Inl e
      | Inr col \<Rightarrow> (case mean L col of Inl e \<Rightarrow> Inl e | Inr m \<Rightarrow> Inr (round_nd L m 2)))"

definition analyze_sexes :: "'f PatientsInfo \<Rightarrow> exn + ('f cell \<times> nat) list" where
  "analyze_sexes self =
     (case getitem (df self) ''sex'' of Inl e \<Rightarrow> Inl e | Inr col \<Rightarrow> Inr (value_counts col))"

definition unique_regions :: "'f PatientsInfo \<Rightarrow> exn + 'f cell list" where
  "unique_regions self =
     (case getitem (df self) ''region'' of Inl e \<Rightarrow> Inl e | Inr col \<Rightarrow> Inr (unique col))"

definition average_charges :: "'f lib \<Rightarrow> 'f PatientsInfo \<Rightarrow> exn + 'f" where
  "average_charges L self =
     (case getitem (df self) ''charges'' of
        Inl e \<Rightarrow> Inl e
      | Inr col \<Rightarrow> (case mean L col of Inl e \<Rightarrow> Inl e | Inr m \<Rightarrow> Inr (round_nd L m 2)))"

definition create_dictionary :: "'f PatientsInfo \<Rightarrow> 'f table" where
  "create_dictionary self = df self"

section \<open>Visualizer\<close>

text \<open>
  Modelled from the spec: \<^verbatim>\<open>df.groupby(key)[val].mean()\<close> of pandas, which is not part of
  the repository's source.  The spec (4.5): "x-axis = distinct region values, y-axis = mean
  charges per region", and (4.4) a missing column is a KeyError; the key column is looked
  up first.  The grouped means themselves are the library's (\<open>group_means\<close>).
\<close>

definition groupby_mean :: "'f lib \<Rightarrow> 'f table \<Rightarrow> string \<Rightarrow> string \<Rightarrow> exn + ('f cell \<times> 'f) list" where
  "groupby_mean L tbl key val =
     (case getitem tbl key of
        Inl e \<Rightarrow> Inl e
      | Inr ks \<Rightarrow> (case getitem tbl val of Inl e \<Rightarrow> Inl e | Inr vs \<Rightarrow> group_means L ks vs))"

text \<open>
  One chart: \<^verbatim>\<open>plt.figure\<close>, the grouped means, then \<^verbatim>\<open>sns.barplot\<close>, the labels and
  \<^verbatim>\<open>plt.show\<close>.  A chart that was displayed is recorded in the world.
\<close>

definition draw_chart ::
  "'f lib \<Rightarrow> 'f table \<Rightarrow> string \<Rightarrow> string \<Rightarrow> string \<Rightarrow> string \<Rightarrow> 'f world \<Rightarrow> (exn + unit) \<times> 'f world" where
  "draw_chart L tbl key xl ttl pal w =
     (case plt_figure L of
        Some e \<Rightarrow> (Inl e, w)
      | None \<Rightarrow>
         (case groupby_mean L tbl key ''charges'' of
            Inl e \<Rightarrow> (Inl e, w)
          | Inr g \<Rightarrow>
             (let c = \<lparr>title = ttl, xlabel = xl, ylabel = ''Average Charges ($)'',
                       palette = pal, bars = g\<rparr>
              in case render L c of
                   Some e \<Rightarrow> (Inl e, w)
                 | None \<Rightarrow> (Inr (), w\<lparr>shown := shown w @ [c]\<rparr>))))"

definition visualize_body :: "'f lib \<Rightarrow> 'f table \<Rightarrow> 'f world \<Rightarrow> (exn + unit) \<times> 'f world" where
  "visualize_body L tbl w =
     (case draw_chart L tbl ''region'' ''Region''
             ''Average Medical Insurance Charges by Region'' ''Blues'' w of
        (Inl e, w1) \<Rightarrow> (Inl e, w1)
      | (Inr u, w1) \<Rightarrow>
          draw_chart L tbl ''smoker'' ''Smoker Status''
            ''Average Charges by Smoking Status'' ''Set1'' w1)"

text \<open>\<^verbatim>\<open>visualize_data\<close>: the handler logs the exception and does not re-raise.\<close>

definition visualize_data :: "'f lib \<Rightarrow> 'f table \<Rightarrow> 'f world \<Rightarrow> (exn + unit) \<times> 'f world" where
  "visualize_data L tbl w =
     (case visualize_body L tbl w of
        (Inr u, w') \<Rightarrow> (Inr (), w')
      | (Inl e, w') \<Rightarrow> (Inr (), logging_error (ErrorVisualizing e) w'))"

section \<open>Orchestrator\<close>

definition automated_analysis :: "'f lib \<Rightarrow> 'f table \<Rightarrow> 'f world \<Rightarrow> (exn + unit) \<times> 'f world" where
  "automated_analysis L tbl w =
     (let patients_info = \<lparr>df = tbl\<rparr> in
      case analyze_ages L patients_info of
        Inl e \<Rightarrow> (Inl e, w)
      | Inr avg_age \<Rightarrow>
     (case analyze_sexes patients_info of
        Inl e \<Rightarrow> (Inl e, w)
      | Inr sex_distribution \<Rightarrow>
     (case average_charges L patients_info of
        Inl e \<Rightarrow> (Inl e, w)
      | Inr avg_charges \<Rightarrow>
     (case unique_regions patients_info of
        Inl e \<Rightarrow> (Inl e, w)
      | Inr regions \<Rightarrow>
          visualize_data L tbl
            (logging_info (UniqueRegions regions)
              (logging_info (AvgCharges avg_charges)
                (logging_info (SexDistribution sex_distribution)
                  (logging_info (AvgAge avg_age) w))))))))"

text \<open>
  The variables of \<^verbatim>\<open>main\<close> that live on in the polling loop: \<^verbatim>\<open>df\<close>, which the lambda
  registered with the scheduler reads when it is called, the next run of the one
  registered job, and the world.
\<close>

record 'f state =
  frame :: "'f table"
  next_run :: nat
  world :: "'f world"

definition usec_per_sec :: nat where
  "usec_per_sec = 1000000"

definition day_len :: nat where
  "day_len = 86400 * usec_per_sec"

definition at_0900 :: nat where
  "at_0900 = 32400 * usec_per_sec"

text \<open>
  Modelled from the spec: the \<^verbatim>\<open>schedule\<close> package, which is not part of the
  repository's source.  The spec: "registers a daily trigger at a fixed wall-clock time
  (09:00 local)" and "once per second, check whether the current time has
  reached/passed any registered trigger's next scheduled instant; if so, invoke the bound
  callback synchronously and compute the trigger's next occurrence (same time next day)".
  \<open>next_occurrence now\<close> is the first 09:00:00 after \<open>now\<close>.
\<close>

definition next_occurrence :: "nat \<Rightarrow> nat" where
  "next_occurrence now =
     (let t = (now div day_len) * day_len + at_0900
      in if now < t then t else t + day_len)"

definition every_day_at_0900_do :: "'f table \<Rightarrow> 'f world \<Rightarrow> 'f state" where
  "every_day_at_0900_do tbl w = \<lparr>frame = tbl, next_run = next_occurrence (clock w), world = w\<rparr>"

text \<open>
  Modelled from the spec: \<^verbatim>\<open>schedule.run_pending\<close> (see above).  The job is
  \<^verbatim>\<open>lambda: automated_analysis(df)\<close>; an exception of the job is not handled.
\<close>

definition run_pending :: "'f lib \<Rightarrow> 'f state \<Rightarrow> (exn + unit) \<times> 'f state" where
  "run_pending L st =
     (if next_run st \<le> clock (world st) then
        (case automated_analysis L (frame st) (world st) of
           (Inl e, w') \<Rightarrow> (Inl e, st\<lparr>world := w'\<rparr>)
         | (Inr u, w') \<Rightarrow> (Inr (), st\<lparr>next_run := next_occurrence (clock w'), world := w'\<rparr>))
      else (Inr (), st))"

definition time_sleep :: "nat \<Rightarrow> 'f state \<Rightarrow> 'f state" where
  "time_sleep secs st = st\<lparr>world := (world st)\<lparr>clock := clock (world st) + secs * usec_per_sec\<rparr>\<rparr>"

text \<open>
  The loop \<^verbatim>\<open>while True: schedule.run_pending(); time.sleep(1)\<close> never ends by itself;
  \<open>steady_state L n\<close> runs its first \<open>n\<close> iterations, or fewer when the job raises.
\<close>

fun steady_state :: "'f lib \<Rightarrow> nat \<Rightarrow> 'f state \<Rightarrow> (exn + unit) \<times> 'f state" where
  "steady_state L 0 st = (Inr (), st)"
| "steady_state L (Suc n) st =
     (case run_pending L st of
        (Inl e, st') \<Rightarrow> (Inl e, st')
      | (Inr u, st') \<Rightarrow> steady_state L n (time_sleep 1 st'))"

text \<open>\<^verbatim>\<open>main\<close> up to the registration of the job.\<close>

definition startup :: "'f lib \<Rightarrow> 'f world \<Rightarrow> (exn + 'f state) \<times> 'f world" where
  "startup L w =
     (case load_data L ''insurance.csv'' w of
        (Inl e, w1) \<Rightarrow> (Inl e, w1)
      | (Inr tbl0, w1) \<Rightarrow>
     (case process_data L tbl0 w1 of
        (Inl e, tbl0', w2) \<Rightarrow> (Inl e, w2)
      | (Inr tbl, tbl0', w2) \<Rightarrow>
     (case save_data L tbl ''processed_insurance.csv'' w2 of
        (Inl e, w3) \<Rightarrow> (Inl e, w3)
      | (Inr u, w3) \<Rightarrow>
     (case automated_analysis L tbl w3 of
        (Inl e, w4) \<Rightarrow> (Inl e, w4)
      | (Inr u, w4) \<Rightarrow> (Inr (every_day_at_0900_do tbl w4), w4)))))"

text \<open>\<^verbatim>\<open>main\<close>, with the first \<open>n\<close> iterations of its loop.\<close>

definition main :: "'f lib \<Rightarrow> nat \<Rightarrow> 'f world \<Rightarrow> (exn + 'f state) \<times> 'f world" where
  "main L n w =
     (case startup L w of
        (Inl e, w') \<Rightarrow> (Inl e, w')
      | (Inr st, w') \<Rightarrow>
         (case steady_state L n st of
            (Inl e, st') \<Rightarrow> (Inl e, world st')
          | (Inr u, st') \<Rightarrow> (Inr st', world st')))"

text \<open>
  The same loop on a disk that other processes write to: \<open>disk\<close> lists, iteration by
  iteration, the files that the poll finds.  \<^verbatim>\<open>main\<close> itself is the case in which
  nobody else writes (\<open>steady_state\<close>).
\<close>

definition found_on_disk :: "(string \<rightharpoonup> string) \<Rightarrow> 'f state \<Rightarrow> 'f state" where
  "found_on_disk fs st = st\<lparr>world := (world st)\<lparr>files := fs\<rparr>\<rparr>"

fun steady_state_on :: "'f lib \<Rightarrow> (string \<rightharpoonup> string) list \<Rightarrow> 'f state \<Rightarrow> (exn + unit) \<times> 'f state" where
  "steady_state_on L [] st = (Inr (), st)"
| "steady_state_on L (fs # disk) st =
     (case run_pending L (found_on_disk fs st) of
        (Inl e, st') \<Rightarrow> (Inl e, st')
      | (Inr u, st') \<Rightarrow> steady_state_on L disk (time_sleep 1 st'))"

section \<open>Observations on tables and logs\<close>

text \<open>
  A table that the Analyzer's four queries accept: the columns \<open>age\<close> and \<open>charges\<close> exist
  and are numeric (as the Transformer leaves them), the columns \<open>sex\<close> and \<open>region\<close> exist.
\<close>

definition numeric_column :: "'f table \<Rightarrow> string \<Rightarrow> bool" where
  "numeric_column tbl name =
     (case map_of tbl name of None \<Rightarrow> False | Some col \<Rightarrow> list_all is_numeric col)"

definition has_column :: "'f table \<Rightarrow> string \<Rightarrow> bool" where
  "has_column tbl name = (case map_of tbl name of None \<Rightarrow> False | Some col \<Rightarrow> True)"

definition analyzable :: "'f table \<Rightarrow> bool" where
  "analyzable tbl \<longleftrightarrow>
     numeric_column tbl ''age'' \<and> has_column tbl ''sex'' \<and>
     numeric_column tbl ''charges'' \<and> has_column tbl ''region''"

text \<open>The messages of the Loader, the Transformer and the Persister.\<close>

fun stage_msg :: "'f msg \<Rightarrow> bool" where
  "stage_msg DataLoaded = True"
| "stage_msg (ErrorLoading e) = True"
| "stage_msg DataProcessed = True"
| "stage_msg (ErrorProcessing e) = True"
| "stage_msg (DataSaved p) = True"
| "stage_msg (ErrorSaving e) = True"
| "stage_msg m = False"

text \<open>
  Every run of \<^verbatim>\<open>automated_analysis\<close> whose queries succeed logs "Average Patient Age"
  once, stamped with the time of the run: the times at which the job ran, read off the log.
\<close>

fun avg_age_msg :: "'f msg \<Rightarrow> bool" where
  "avg_age_msg (AvgAge a) = True"
| "avg_age_msg m = False"

definition fired_at :: "(nat \<times> level \<times> 'f msg) list \<Rightarrow> nat list" where
  "fired_at lg = map fst (filter (\<lambda>r. avg_age_msg (snd (snd r))) lg)"

section \<open>An instance of the libraries over the rationals\<close>

text \<open>
  To run the model on concrete tables, the library record is instantiated with exact
  arithmetic on rationals in place of float64: decimal digit strings convert to numbers
  and any other text raises ValueError, NaN does not convert to an integer, the mean is
  the exact mean of the values present, rounding is to the nearest multiple of
  \<open>10\<^sup>-\<^sup>n\<close>, groups are listed in encounter order, the plotting backend does not fail, and
  a file can be written unless its path is empty.  The CSV parser is a parameter: it yields the given table.
\<close>

definition is_digit :: "char \<Rightarrow> bool" where
  "is_digit c \<longleftrightarrow> c \<in> set ''0123456789''"

definition parse_nat :: "string \<Rightarrow> nat" where
  "parse_nat s = foldl (\<lambda>a c. 10 * a + (of_char c - 48)) 0 s"

definition parse_number :: "string \<Rightarrow> exn + nat" where
  "parse_number s =
     (if s \<noteq> [] \<and> list_all is_digit s then Inr (parse_nat s) else Inl (ValueError s))"

fun ref_to_float :: "rat cell \<Rightarrow> exn + rat cell" where
  "ref_to_float (CInt n) = Inr (CFloat (of_int n))"
| "ref_to_float (CFloat x) = Inr (CFloat x)"
| "ref_to_float (CStr s) =
     (case parse_number s of Inl e \<Rightarrow> Inl e | Inr n \<Rightarrow> Inr (CFloat (of_nat n)))"
| "ref_to_float (CBool b) = Inr (CFloat (if b then 1 else 0))"
| "ref_to_float CNaN = Inr CNaN"

fun ref_to_int :: "rat cell \<Rightarrow> exn + rat cell" where
  "ref_to_int (CInt n) = Inr (CInt n)"
| "ref_to_int (CFloat x) = Inr (CInt (if 0 \<le> x then \<lfloor>x\<rfloor> else \<lceil>x\<rceil>))"
| "ref_to_int (CStr s) =
     (case parse_number s of Inl e \<Rightarrow> Inl e | Inr n \<Rightarrow> Inr (CInt (int n)))"
| "ref_to_int (CBool b) = Inr (CInt (if b then 1 else 0))"
| "ref_to_int CNaN = Inl (ValueError ''cannot convert float NaN to integer'')"

fun cell_values :: "rat cell list \<Rightarrow> rat list" where
  "cell_values [] = []"
| "cell_values (CInt n # cs) = of_int n # cell_values cs"
| "cell_values (CFloat x # cs) = x # cell_values cs"
| "cell_values (CBool b # cs) = (if b then 1 else 0) # cell_values cs"
| "cell_values (c # cs) = cell_values cs"

definition ref_fmean :: "rat cell list \<Rightarrow> rat" where
  "ref_fmean col =
     (let xs = cell_values col in if xs = [] then 0 else sum_list xs / of_nat (length xs))"

definition ref_round :: "rat \<Rightarrow> nat \<Rightarrow> rat" where
  "ref_round x n = of_int \<lfloor>x * 10 ^ n + 1 / 2\<rfloor> / 10 ^ n"

definition ref_group_means :: "rat cell list \<Rightarrow> rat cell list \<Rightarrow> exn + (rat cell \<times> rat) list" where
  "ref_group_means ks vs =
     Inr (map (\<lambda>k. (k, ref_fmean (map snd (filter (\<lambda>p. fst p = k) (zip ks vs)))))
            (unique (filter (\<lambda>c. \<not> isna c) ks)))"

definition ref_lib :: "rat table \<Rightarrow> rat lib" where
  "ref_lib tbl =
     \<lparr>parse_csv = (\<lambda>text. Inr tbl),
      csv_text = (\<lambda>t index. concat (map fst t)),
      write_error = (\<lambda>p. if p = [] then Some (FileNotFoundError p) else None),
      to_float = ref_to_float,
      to_int = ref_to_int,
      fmean = ref_fmean,
      round_nd = ref_round,
      group_means = ref_group_means,
      plt_figure = None,
      render = (\<lambda>c. None)\<rparr>"

text \<open>A small table as the Loader returns it, and the same table after the Transformer.\<close>

definition insurance_raw :: "rat table" where
  "insurance_raw =
     [(''age'', [CInt 19, CFloat 33]),
      (''sex'', [CStr ''female'', CStr ''male'']),
      (''smoker'', [CStr ''yes'', CStr ''no'']),
      (''region'', [CStr ''southwest'', CStr ''southeast'']),
      (''charges'', [CInt 1700, CFloat (3449 / 2)])]"

definition insurance_processed :: "rat table" where
  "insurance_processed =
     [(''age'', [CInt 19, CInt 33]),
      (''sex'', [CStr ''female'', CStr ''male'']),
      (''smoker'', [CStr ''yes'', CStr ''no'']),
      (''region'', [CStr ''southwest'', CStr ''southeast'']),
      (''charges'', [CFloat 1700, CFloat (3449 / 2)])]"

text \<open>The processed table without its \<open>smoker\<close> column.\<close>

definition insurance_no_smoker :: "rat table" where
  "insurance_no_smoker =
     [(''age'', [CInt 19, CInt 33]),
      (''sex'', [CStr ''female'', CStr ''male'']),
      (''region'', [CStr ''southwest'', CStr ''southeast'']),
      (''charges'', [CFloat 1700, CFloat (3449 / 2)])]"

text \<open>A plotting backend that cannot display anything.\<close>

definition no_display :: "rat chart \<Rightarrow> exn option" where
  "no_display c = Some (OtherError ''no display'')"

text \<open>A world at 08:59:59 of the first day in which the input file exists and nothing was logged.\<close>

definition world_0859 :: "rat world" where
  "world_0859 =
     \<lparr>clock = 32399000000, logfile = [],
      files = [''insurance.csv'' \<mapsto> ''age,sex,region,charges,smoker''], shown = []\<rparr>"

section \<open>Properties of the Analyzer\<close>

subsection \<open>Unique regions\<close>

lemma unique_snoc:
  "unique (xs @ [x]) = (if x \<in> set (unique xs) then unique xs else unique xs @ [x])"
  by (simp add: unique_def)

lemma unique_Nil: "unique [] = []"
  by (simp add: unique_def)

lemma set_unique: "set (unique xs) = set xs"
  by (induction xs rule: rev_induct) (auto simp: unique_snoc unique_Nil)

lemma distinct_unique: "distinct (unique xs)"
  by (induction xs rule: rev_induct) (auto simp: unique_snoc unique_Nil)

lemma unique_first_occurrences:
  "unique xs = map (\<lambda>i. xs ! i) (filter (\<lambda>i. xs ! i \<notin> set (take i xs)) [0..<length xs])"
proof (induction xs rule: rev_induct)
  case Nil
  show ?case by (simp add: unique_Nil)
next
  case (snoc x xs)
  let ?P = "\<lambda>i. xs ! i \<notin> set (take i xs)"
  let ?Q = "\<lambda>i. (xs @ [x]) ! i \<notin> set (take i (xs @ [x]))"
  have old: "filter ?Q [0..<length xs] = filter ?P [0..<length xs]"
    by (rule filter_cong) (auto simp: nth_append)
  have nth_old: "map (\<lambda>i. (xs @ [x]) ! i) (filter ?P [0..<length xs])
               = map (\<lambda>i. xs ! i) (filter ?P [0..<length xs])"
    by (rule map_cong) (auto simp: nth_append)
  have last: "?Q (length xs) \<longleftrightarrow> x \<notin> set xs"
    by simp
  have "map (\<lambda>i. (xs @ [x]) ! i) (filter ?Q [0..<length (xs @ [x])])
      = map (\<lambda>i. (xs @ [x]) ! i) (filter ?Q [0..<length xs])
        @ (if ?Q (length xs) then [x] else [])"
    by simp
  also have "\<dots> = unique xs @ (if x \<notin> set xs then [x] else [])"
    unfolding old nth_old last snoc.IH [symmetric] ..
  also have "\<dots> = unique (xs @ [x])"
    by (simp add: unique_snoc set_unique)
  finally show ?case ..
qed

text \<open>
  Claim C4.  For a table with a \<open>region\<close> column, \<open>unique_regions\<close> returns the
  distinct values of the column, without duplicates, in the order in which they are
  first met: the output is the column restricted to the positions whose value does not
  occur at an earlier position.  On the regions west, east, west, north the output is
  west, east, north.
\<close>

theorem unique_regions_first_encounter:
  assumes "getitem (df self) ''region'' = Inr col"
  shows "\<exists>out. unique_regions self = Inr out \<and> distinct out \<and> set out = set col \<and>
           out = map (\<lambda>i. col ! i) (filter (\<lambda>i. col ! i \<notin> set (take i col)) [0..<length col])"
proof -
  have "unique_regions self = Inr (unique col)"
    using assms by (simp add: unique_regions_def)
  moreover have "distinct (unique col)" "set (unique col) = set col"
    by (rule distinct_unique, rule set_unique)
  ultimately show ?thesis
    using unique_first_occurrences [of col] by blast
qed

theorem unique_regions_first_encounter_witness:
  "getitem (df \<lparr>df = [(''region'', [CStr ''west'', CStr ''east'', CStr ''west'', CStr ''north''])]\<rparr>) ''region''
     = Inr [CStr ''west'', CStr ''east'', CStr ''west'', CStr ''north'' :: int cell]
   \<and> unique_regions \<lparr>df = [(''region'', [CStr ''west'', CStr ''east'', CStr ''west'', CStr ''north''])]\<rparr>
     = Inr [CStr ''west'', CStr ''east'', CStr ''north'' :: int cell]"
proof -
  let ?col = "[CStr ''west'', CStr ''east'', CStr ''west'', CStr ''north'' :: int cell]"
  have g: "getitem (df \<lparr>df = [(''region'', ?col)]\<rparr>) ''region'' = Inr ?col"
    by (simp add: getitem_def)
  have up: "[0..<length ?col] = [0, 1, 2, 3]"
    by (simp add: upt_rec)
  from unique_regions_first_encounter [OF g] up g show ?thesis
    by simp 
qed

subsection \<open>Sex distribution\<close>

lemma tally_Nil: "tally [] = []"
  by (simp add: tally_def)

lemma tally_snoc: "tally (xs @ [x]) = count_into x (tally xs)"
  by (simp add: tally_def)

lemma map_fst_count_into:
  "map fst (count_into x kvs) = (if x \<in> set (map fst kvs) then map fst kvs else map fst kvs @ [x])"
  by (induction x kvs rule: count_into.induct) auto

lemma map_fst_tally: "map fst (tally xs) = unique xs"
  by (induction xs rule: rev_induct)
     (simp_all add: tally_Nil tally_snoc unique_Nil unique_snoc map_fst_count_into)

lemma map_of_count_into:
  "map_of (count_into x kvs) k =
     (if k = x then Some (case map_of kvs x of None \<Rightarrow> 1 | Some n \<Rightarrow> Suc n) else map_of kvs k)"
  by (induction x kvs rule: count_into.induct) auto

lemma map_of_tally:
  "map_of (tally xs) k = (if k \<in> set xs then Some (count_list xs k) else None)"
  by (induction xs rule: rev_induct)
     (auto simp: tally_Nil tally_snoc map_of_count_into)

lemma tally_entry:
  assumes "kv \<in> set (tally xs)"
  shows "snd kv = count_list xs (fst kv)"
proof -
  have "distinct (map fst (tally xs))"
    by (simp add: map_fst_tally distinct_unique)
  with assms have "map_of (tally xs) (fst kv) = Some (snd kv)"
    using map_of_is_SomeI [of "tally xs" "fst kv" "snd kv"] by simp
  then show ?thesis
    by (simp add: map_of_tally split: if_splits)
qed

lemma count_list_notna:
  "\<not> isna k \<Longrightarrow> count_list (filter (\<lambda>c. \<not> isna c) col) k = count_list col k"
  by (induction col) auto

lemma sort_values_desc_ties:
  "filter (\<lambda>kv. snd kv = n) (sort_values_desc kvs) = filter (\<lambda>kv. snd kv = n) kvs"
proof -
  have "filter (\<lambda>kv. - int (snd kv) = - int n) (sort_key (\<lambda>kv. - int (snd kv)) kvs)
      = filter (\<lambda>kv. - int (snd kv) = - int n) kvs"
    by (rule sort_key_stable)
  then show ?thesis
    by (simp add: sort_values_desc_def)
qed

lemma sort_values_desc_sorted: "sorted_wrt (\<lambda>a b. snd b \<le> snd a) (sort_values_desc kvs)"
proof -
  have "sorted (map (\<lambda>kv. - int (snd kv)) (sort_key (\<lambda>kv. - int (snd kv)) kvs))"
    by (rule sorted_sort_key)
  then show ?thesis
    by (simp add: sort_values_desc_def sorted_map)
qed

lemma set_sort_values_desc: "set (sort_values_desc kvs) = set kvs"
  by (simp add: sort_values_desc_def)

lemma distinct_keys_sort_values_desc:
  "distinct (map fst (sort_values_desc kvs)) = distinct (map fst kvs)"
  by (simp add: sort_values_desc_def distinct_map)

lemma value_counts_props:
  fixes col :: "'f cell list"
  defines "ys \<equiv> filter (\<lambda>c. \<not> isna c) col"
  shows "distinct (map fst (value_counts col))"
    and "set (map fst (value_counts col)) = {c \<in> set col. \<not> isna c}"
    and "kv \<in> set (value_counts col) \<Longrightarrow> snd kv = count_list col (fst kv)"
    and "sorted_wrt (\<lambda>a b. snd b \<le> snd a) (value_counts col)"
    and "map fst (filter (\<lambda>kv. snd kv = n) (value_counts col))
           = filter (\<lambda>k. count_list col k = n) (unique ys)"
proof -
  have vc: "value_counts col = sort_values_desc (tally ys)"
    by (simp add: value_counts_def ys_def)
  show "distinct (map fst (value_counts col))"
    by (simp add: vc distinct_keys_sort_values_desc map_fst_tally distinct_unique)
  have "set (map fst (value_counts col)) = set (map fst (tally ys))"
    by (simp add: vc set_sort_values_desc)
  then show "set (map fst (value_counts col)) = {c \<in> set col. \<not> isna c}"
    by (auto simp: map_fst_tally set_unique ys_def)
  have entry: "snd kv = count_list col (fst kv)" if "kv \<in> set (tally ys)" for kv
  proof -
    have "fst kv \<in> set (map fst (tally ys))"
      using that by simp
    then have "\<not> isna (fst kv)"
      by (simp add: map_fst_tally set_unique ys_def)
    then show ?thesis
      using tally_entry [OF that] by (simp add: ys_def count_list_notna)
  qed
  show "kv \<in> set (value_counts col) \<Longrightarrow> snd kv = count_list col (fst kv)"
    by (simp add: vc set_sort_values_desc entry)
  show "sorted_wrt (\<lambda>a b. snd b \<le> snd a) (value_counts col)"
    by (simp add: vc sort_values_desc_sorted)
  have "map fst (filter (\<lambda>kv. snd kv = n) (tally ys))
      = map fst (filter (\<lambda>kv. count_list col (fst kv) = n) (tally ys))"
    by (rule arg_cong [where f = "map fst"], rule filter_cong) (auto simp: entry)
  also have "\<dots> = filter (\<lambda>k. count_list col k = n) (map fst (tally ys))"
    by (simp add: filter_map comp_def)
  finally show "map fst (filter (\<lambda>kv. snd kv = n) (value_counts col))
           = filter (\<lambda>k. count_list col k = n) (unique ys)"
    by (simp add: vc sort_values_desc_ties map_fst_tally)
qed

lemma value_counts_drops_missing:
  "value_counts [CStr ''male'', CNaN, CStr ''female'', CNaN, CStr ''female'' :: int cell]
     = [(CStr ''female'', 2), (CStr ''male'', 1)]"
  by (simp add: value_counts_def tally_def sort_values_desc_def)

lemma value_counts_tie_example:
  "value_counts [CStr ''b'', CStr ''a'', CStr ''c'', CStr ''c'' :: int cell]
     = [(CStr ''c'', 2), (CStr ''b'', 1), (CStr ''a'', 1)]"
  by (simp add: value_counts_def tally_def sort_values_desc_def)

text \<open>
  Claim C3.  For a table with a \<open>sex\<close> column, \<open>analyze_sexes\<close> returns a mapping (a
  dict in insertion order, here an association list with distinct keys) whose keys are
  the distinct values of the column, a missing entry (NaN) not being a value, and which
  maps each key to the number of rows holding it.  The entries are in descending order
  of count, and the keys that share a count stand in the order in which they are first
  met in the column.  On male, female, male the result is male: 2, female: 1.
\<close>

theorem analyze_sexes_counts:
  assumes "getitem (df self) ''sex'' = Inr col"
  shows "\<exists>vc. analyze_sexes self = Inr vc
     \<and> distinct (map fst vc)
     \<and> set (map fst vc) = {c \<in> set col. \<not> isna c}
     \<and> (\<forall>kv \<in> set vc. snd kv = count_list col (fst kv))
     \<and> sorted_wrt (\<lambda>a b. snd b \<le> snd a) vc
     \<and> (\<forall>n. map fst (filter (\<lambda>kv. snd kv = n) vc)
              = filter (\<lambda>k. count_list col k = n) (unique (filter (\<lambda>c. \<not> isna c) col)))"
proof -
  have "analyze_sexes self = Inr (value_counts col)"
    using assms by (simp add: analyze_sexes_def)
  then show ?thesis
    using value_counts_props [where col = col] by blast
qed


theorem analyze_sexes_counts_witness:
  "getitem (df \<lparr>df = [(''sex'', [CStr ''male'', CStr ''female'', CStr ''male''])]\<rparr>) ''sex''
     = Inr [CStr ''male'', CStr ''female'', CStr ''male'' :: int cell]
   \<and> analyze_sexes \<lparr>df = [(''sex'', [CStr ''male'', CStr ''female'', CStr ''male''])]\<rparr>
     = Inr [(CStr ''male'' :: int cell, 2), (CStr ''female'', 1)]
   \<and> count_list [CStr ''male'', CStr ''female'', CStr ''male'' :: int cell] (CStr ''male'') = 2
   \<and> count_list [CStr ''male'', CStr ''female'', CStr ''male'' :: int cell] (CStr ''female'') = 1"
proof -
  let ?col = "[CStr ''male'', CStr ''female'', CStr ''male'' :: int cell]"
  let ?self = "\<lparr>df = [(''sex'', ?col)]\<rparr>"
  have g: "getitem (df ?self) ''sex'' = Inr ?col"
    by (simp add: getitem_def)
  have run: "analyze_sexes ?self = Inr [(CStr ''male'', 2), (CStr ''female'', 1)]"
    by (simp add: analyze_sexes_def getitem_def value_counts_def tally_def sort_values_desc_def)
  from analyze_sexes_counts [OF g] obtain vc where
    vc: "analyze_sexes ?self = Inr vc" and
    cnt: "\<forall>kv \<in> set vc. snd kv = count_list ?col (fst kv)"
    by blast
  from vc run have "vc = [(CStr ''male'', 2), (CStr ''female'', 1)]"
    by simp
  with cnt have "count_list ?col (CStr ''male'') = 2" "count_list ?col (CStr ''female'') = 1"
    by simp_all
  with g run show ?thesis
    by blast
qed

section \<open>Properties of the Transformer\<close>

lemma getitem_setitem:
  "getitem (setitem tbl k col) k' = (if k' = k then Inr col else getitem tbl k')"
  by (simp add: getitem_def setitem_def update_conv')

lemma astype_Inl_D: "astype f xs = Inl e \<Longrightarrow> \<exists>x\<in>set xs. f x = Inl e"
  by (induction xs) (auto split: sum.splits)

lemma astype_Inr_D: "astype f xs = Inr ys \<Longrightarrow> list_all2 (\<lambda>x y. f x = Inr y) xs ys"
  by (induction xs arbitrary: ys) (auto split: sum.splits)

lemma astype_fails_iff: "isl (astype f xs) \<longleftrightarrow> (\<exists>x\<in>set xs. isl (f x))"
  by (induction xs) (auto split: sum.splits)

lemma process_body_columns:
  assumes "getitem tbl ''charges'' = Inr cs" and "getitem tbl ''age'' = Inr ags"
  shows "process_body L tbl =
     (case astype (to_float L) cs of
        Inl e \<Rightarrow> (Inl e, tbl)
      | Inr cs' \<Rightarrow>
         (case astype (to_int L) ags of
            Inl e \<Rightarrow> (Inl e, setitem tbl ''charges'' cs')
          | Inr ags' \<Rightarrow> (Inr (), setitem (setitem tbl ''charges'' cs') ''age'' ags')))"
  using assms by (simp add: process_body_def getitem_setitem split: sum.splits)

lemma setitem_changes:
  assumes "getitem tbl k = Inr col" and "col' \<noteq> col"
  shows "setitem tbl k col' \<noteq> tbl"
proof
  assume "setitem tbl k col' = tbl"
  then have "getitem (setitem tbl k col') k = getitem tbl k"
    by simp
  with assms show False
    by (simp add: getitem_setitem)
qed

lemma process_body_fails:
  assumes "getitem tbl ''charges'' = Inr cs" and "getitem tbl ''age'' = Inr ags"
    and "(\<exists>c\<in>set cs. isl (to_float L c)) \<or> (\<exists>a\<in>set ags. isl (to_int L a))"
  shows "\<exists>e tbl'. process_body L tbl = (Inl e, tbl') \<and>
           ((\<exists>c\<in>set cs. to_float L c = Inl e) \<or> (\<exists>a\<in>set ags. to_int L a = Inl e))"
proof (cases "astype (to_float L) cs")
  case (Inl e)
  then show ?thesis
    using assms(1,2) astype_Inl_D [OF Inl] by (auto simp: process_body_columns)
next
  case (Inr cs')
  then have "\<not> isl (astype (to_float L) cs)"
    by simp
  then have "\<exists>a\<in>set ags. isl (to_int L a)"
    using assms(3) by (simp add: astype_fails_iff)
  then have "isl (astype (to_int L) ags)"
    by (simp add: astype_fails_iff)
  then obtain e where e: "astype (to_int L) ags = Inl e"
    by (cases "astype (to_int L) ags") auto
  show ?thesis
    using assms(1,2) Inr e astype_Inl_D [OF e] by (auto simp: process_body_columns)
qed

lemma startup_process_fails:
  assumes "files w ''insurance.csv'' = Some text" and "parse_csv L text = Inr tbl"
    and "process_body L tbl = (Inl e, tbl')"
  shows "startup L w = (Inl e, logging_error (ErrorProcessing e) (logging_info DataLoaded w))"
  using assms by (simp add: startup_def load_data_def read_csv_def process_data_def)

text \<open>
  Claim C9.  \<open>process_data\<close> converts \<open>charges\<close> before \<open>age\<close> and assigns into the
  caller's table.  When the conversion of \<open>charges\<close> fails, that error is raised whatever
  \<open>age\<close> holds, and the table is as it was.  When the conversion of \<open>charges\<close> succeeds
  and that of \<open>age\<close> fails, \<open>process_data\<close> raises the error of \<open>age\<close> while the caller's
  table already holds the converted \<open>charges\<close> column; the table then differs from the one
  passed in whenever the conversion changed a value of \<open>charges\<close>.
\<close>

theorem process_data_mutates_before_raising:
  assumes "getitem tbl ''charges'' = Inr cs" and "getitem tbl ''age'' = Inr ags"
  shows "(astype (to_float L) cs = Inl e \<longrightarrow>
            process_data L tbl w = (Inl e, tbl, logging_error (ErrorProcessing e) w))
       \<and> (astype (to_float L) cs = Inr cs' \<and> astype (to_int L) ags = Inl e \<longrightarrow>
            process_data L tbl w
              = (Inl e, setitem tbl ''charges'' cs', logging_error (ErrorProcessing e) w)
          \<and> getitem (setitem tbl ''charges'' cs') ''charges'' = Inr cs'
          \<and> list_all2 (\<lambda>c c'. to_float L c = Inr c') cs cs'
          \<and> (cs' \<noteq> cs \<longrightarrow> setitem tbl ''charges'' cs' \<noteq> tbl))"
  using assms
  by (auto simp: process_data_def process_body_columns getitem_setitem
        dest: astype_Inr_D setitem_changes)

theorem process_data_mutates_before_raising_witness:
  "getitem [(''age'', [CStr ''abc'']), (''charges'', [CInt 100 :: rat cell])] ''charges'' = Inr [CInt 100]
   \<and> getitem [(''age'', [CStr ''abc'']), (''charges'', [CInt 100 :: rat cell])] ''age'' = Inr [CStr ''abc'']
   \<and> astype (to_float (ref_lib [])) [CInt 100] = Inr [CFloat 100]
   \<and> astype (to_int (ref_lib [])) [CStr ''abc''] = Inl (ValueError ''abc'')
   \<and> process_data (ref_lib []) [(''age'', [CStr ''abc'']), (''charges'', [CInt 100])] world_0859
       = (Inl (ValueError ''abc''),
          [(''age'', [CStr ''abc'']), (''charges'', [CFloat 100])],
          logging_error (ErrorProcessing (ValueError ''abc'')) world_0859)
   \<and> [(''age'', [CStr ''abc'']), (''charges'', [CFloat 100])]
       \<noteq> [(''age'', [CStr ''abc'']), (''charges'', [CInt 100 :: rat cell])]"
proof -
  let ?tbl = "[(''age'', [CStr ''abc'']), (''charges'', [CInt 100 :: rat cell])]"
  have c: "getitem ?tbl ''charges'' = Inr [CInt 100]"
    and a: "getitem ?tbl ''age'' = Inr [CStr ''abc'']"
    by (simp_all add: getitem_def)
  have f: "astype (to_float (ref_lib [])) [CInt 100] = Inr [CFloat 100]"
    by (simp add: ref_lib_def)
  have i: "astype (to_int (ref_lib [])) [CStr ''abc''] = Inl (ValueError ''abc'')"
    by (simp add: ref_lib_def parse_number_def is_digit_def)
  have s: "setitem ?tbl ''charges'' [CFloat 100] = [(''age'', [CStr ''abc'']), (''charges'', [CFloat 100])]"
    by (simp add: setitem_def)
  from process_data_mutates_before_raising [OF c a, where L = "ref_lib []" and e = "ValueError ''abc''" and cs' = "[CFloat 100]" and w = world_0859]
    f i s c a
  show ?thesis
    by simp
qed


text \<open>
  Claim C1.  When the table read from the input file has a value in \<open>charges\<close> or in \<open>age\<close>
  that does not convert, \<open>process_data\<close> raises the error of a failed conversion and
  returns no table; \<open>main\<close> then ends with that error however long it is given, having
  logged the load and the processing error only: no file is written, no chart is shown,
  and neither the Persister nor the Analyzer is reached.
\<close>

theorem conversion_failure_aborts_run:
  assumes "files w ''insurance.csv'' = Some text" and "parse_csv L text = Inr tbl"
    and "getitem tbl ''charges'' = Inr cs" and "getitem tbl ''age'' = Inr ags"
    and "(\<exists>c\<in>set cs. isl (to_float L c)) \<or> (\<exists>a\<in>set ags. isl (to_int L a))"
  shows "\<exists>e tbl'.
       ((\<exists>c\<in>set cs. to_float L c = Inl e) \<or> (\<exists>a\<in>set ags. to_int L a = Inl e))
     \<and> process_data L tbl w1 = (Inl e, tbl', logging_error (ErrorProcessing e) w1)
     \<and> (\<forall>n. \<exists>w'. main L n w = (Inl e, w')
            \<and> files w' = files w \<and> shown w' = shown w
            \<and> logfile w' = logfile w @ [(clock w, INFO, DataLoaded), (clock w, ERROR, ErrorProcessing e)])"
proof -
  from process_body_fails [OF assms(3,4,5)] obtain e tbl' where
    body: "process_body L tbl = (Inl e, tbl')" and
    src: "(\<exists>c\<in>set cs. to_float L c = Inl e) \<or> (\<exists>a\<in>set ags. to_int L a = Inl e)"
    by blast
  have pd: "process_data L tbl w1 = (Inl e, tbl', logging_error (ErrorProcessing e) w1)"
    by (simp add: process_data_def body)
  have "main L n w = (Inl e, logging_error (ErrorProcessing e) (logging_info DataLoaded w))" for n
    by (simp add: main_def startup_process_fails [OF assms(1,2) body])
  then have "\<forall>n. \<exists>w'. main L n w = (Inl e, w')
            \<and> files w' = files w \<and> shown w' = shown w
            \<and> logfile w' = logfile w @ [(clock w, INFO, DataLoaded), (clock w, ERROR, ErrorProcessing e)]"
    by (simp add: logging_error_def logging_info_def)
  with src pd show ?thesis
    by blast
qed

theorem conversion_failure_aborts_run_witness:
  "files world_0859 ''insurance.csv'' = Some ''age,sex,region,charges,smoker''
   \<and> parse_csv (ref_lib [(''age'', [CStr ''abc'']), (''charges'', [CInt 100])])
        ''age,sex,region,charges,smoker''
       = Inr [(''age'', [CStr ''abc'']), (''charges'', [CInt 100])]
   \<and> getitem [(''age'', [CStr ''abc'']), (''charges'', [CInt 100 :: rat cell])] ''charges'' = Inr [CInt 100]
   \<and> getitem [(''age'', [CStr ''abc'']), (''charges'', [CInt 100 :: rat cell])] ''age'' = Inr [CStr ''abc'']
   \<and> isl (to_int (ref_lib [(''age'', [CStr ''abc'']), (''charges'', [CInt 100])]) (CStr ''abc''))
   \<and> fst (main (ref_lib [(''age'', [CStr ''abc'']), (''charges'', [CInt 100])]) 3 world_0859)
       = Inl (ValueError ''abc'')
   \<and> files (snd (main (ref_lib [(''age'', [CStr ''abc'']), (''charges'', [CInt 100])]) 3 world_0859))
        ''processed_insurance.csv'' = None
   \<and> logfile (snd (main (ref_lib [(''age'', [CStr ''abc'']), (''charges'', [CInt 100])]) 3 world_0859))
       = [(32399000000, INFO, DataLoaded), (32399000000, ERROR, ErrorProcessing (ValueError ''abc''))]"
proof -
  let ?tbl = "[(''age'', [CStr ''abc'']), (''charges'', [CInt 100 :: rat cell])]"
  let ?L = "ref_lib ?tbl"
  have f: "files world_0859 ''insurance.csv'' = Some ''age,sex,region,charges,smoker''"
    by (simp add: world_0859_def)
  have p: "parse_csv ?L ''age,sex,region,charges,smoker'' = Inr ?tbl"
    by (simp add: ref_lib_def)
  have c: "getitem ?tbl ''charges'' = Inr [CInt 100]"
    and a: "getitem ?tbl ''age'' = Inr [CStr ''abc'']"
    by (simp_all add: getitem_def)
  have bad: "isl (to_int ?L (CStr ''abc''))"
    by (simp add: ref_lib_def parse_number_def is_digit_def)
  then have hyp: "(\<exists>c\<in>set [CInt 100]. isl (to_float ?L c)) \<or> (\<exists>a\<in>set [CStr ''abc'']. isl (to_int ?L a))"
    by simp
  from conversion_failure_aborts_run [OF f p c a hyp, where ?w1.0 = world_0859]
  obtain e w' where
    src: "(\<exists>c\<in>set [CInt 100]. to_float ?L c = Inl e) \<or> (\<exists>a\<in>set [CStr ''abc'']. to_int ?L a = Inl e)"
    and m: "main ?L 3 world_0859 = (Inl e, w')" "files w' = files world_0859"
      "logfile w' = logfile world_0859 @ [(clock world_0859, INFO, DataLoaded), (clock world_0859, ERROR, ErrorProcessing e)]"
    by blast
  from src have e: "e = ValueError ''abc''"
    by (simp add: ref_lib_def parse_number_def is_digit_def)
  from m e f p c a bad show ?thesis
    by (simp add: world_0859_def)
qed

section \<open>Properties of the Visualizer and the Orchestrator\<close>

subsection \<open>What a run of the analysis changes\<close>

lemma draw_chart_world:
  "clock (snd (draw_chart L tbl key xl ttl pal w)) = clock w"
  "files (snd (draw_chart L tbl key xl ttl pal w)) = files w"
  "logfile (snd (draw_chart L tbl key xl ttl pal w)) = logfile w"
  by (simp_all add: draw_chart_def Let_def split: option.splits sum.splits)

lemma visualize_body_world:
  "clock (snd (visualize_body L tbl w)) = clock w"
  "files (snd (visualize_body L tbl w)) = files w"
  "logfile (snd (visualize_body L tbl w)) = logfile w"
proof -
  obtain r w1 where d: "draw_chart L tbl ''region'' ''Region''
      ''Average Medical Insurance Charges by Region'' ''Blues'' w = (r, w1)"
    by (cases "draw_chart L tbl ''region'' ''Region''
      ''Average Medical Insurance Charges by Region'' ''Blues'' w")
  from draw_chart_world [of L tbl "''region''" "''Region''"
      "''Average Medical Insurance Charges by Region''" "''Blues''" w] d
  have w1: "clock w1 = clock w" "files w1 = files w" "logfile w1 = logfile w"
    by simp_all
  show "clock (snd (visualize_body L tbl w)) = clock w"
    "files (snd (visualize_body L tbl w)) = files w"
    "logfile (snd (visualize_body L tbl w)) = logfile w"
    using d w1 by (cases r; simp add: visualize_body_def draw_chart_world)+
qed

lemma visualize_data_fst: "fst (visualize_data L tbl w) = Inr ()"
  by (simp add: visualize_data_def split: prod.splits sum.splits)

lemma visualize_data_world:
  "clock (snd (visualize_data L tbl w)) = clock w"
  "files (snd (visualize_data L tbl w)) = files w"
  "logfile (snd (visualize_data L tbl w)) =
     logfile w @ (case fst (visualize_body L tbl w) of
                    Inl e \<Rightarrow> [(clock w, ERROR, ErrorVisualizing e)] | Inr u \<Rightarrow> [])"
  using visualize_body_world [of L tbl w]
  by (cases "visualize_body L tbl w"; cases "fst (visualize_body L tbl w)";
      simp add: visualize_data_def logging_error_def)+


lemma analyzable_columns:
  assumes "analyzable tbl"
  shows "\<exists>ags sx cs rg. getitem tbl ''age'' = Inr ags \<and> list_all is_numeric ags
           \<and> getitem tbl ''sex'' = Inr sx \<and> getitem tbl ''charges'' = Inr cs
           \<and> list_all is_numeric cs \<and> getitem tbl ''region'' = Inr rg"
  using assms
  by (auto simp: analyzable_def numeric_column_def has_column_def getitem_def split: option.splits)

lemma automated_analysis_analyzable:
  assumes "getitem tbl ''age'' = Inr ags" and "list_all is_numeric ags"
    and "getitem tbl ''sex'' = Inr sx" and "getitem tbl ''charges'' = Inr cs"
    and "list_all is_numeric cs" and "getitem tbl ''region'' = Inr rg"
  shows "automated_analysis L tbl w =
           visualize_data L tbl
             (w\<lparr>logfile := logfile w @
                  [(clock w, INFO, AvgAge (round_nd L (fmean L ags) 2)),
                   (clock w, INFO, SexDistribution (value_counts sx)),
                   (clock w, INFO, AvgCharges (round_nd L (fmean L cs) 2)),
                   (clock w, INFO, UniqueRegions (unique rg))]\<rparr>)"
  using assms
  by (simp add: automated_analysis_def analyze_ages_def analyze_sexes_def average_charges_def
        unique_regions_def mean_def logging_info_def)

lemma automated_analysis_ok:
  assumes "analyzable tbl"
  shows "fst (automated_analysis L tbl w) = Inr ()"
    and "clock (snd (automated_analysis L tbl w)) = clock w"
    and "fired_at (logfile (snd (automated_analysis L tbl w))) = fired_at (logfile w) @ [clock w]"
proof -
  from analyzable_columns [OF assms] obtain ags sx cs rg where
    c: "getitem tbl ''age'' = Inr ags" "list_all is_numeric ags"
      "getitem tbl ''sex'' = Inr sx" "getitem tbl ''charges'' = Inr cs"
      "list_all is_numeric cs" "getitem tbl ''region'' = Inr rg"
    by blast
  note aa = automated_analysis_analyzable [OF c]
  show "fst (automated_analysis L tbl w) = Inr ()"
    by (simp add: aa visualize_data_fst)
  show "clock (snd (automated_analysis L tbl w)) = clock w"
    by (simp add: aa visualize_data_world)
  show "fired_at (logfile (snd (automated_analysis L tbl w))) = fired_at (logfile w) @ [clock w]"
    by (simp add: aa visualize_data_world fired_at_def split: sum.splits)
qed

lemma automated_analysis_cases:
  "(\<exists>e. automated_analysis L tbl w = (Inl e, w)) \<or>
   (\<exists>a s c r. automated_analysis L tbl w =
      visualize_data L tbl
        (w\<lparr>logfile := logfile w @
             [(clock w, INFO, AvgAge a), (clock w, INFO, SexDistribution s),
              (clock w, INFO, AvgCharges c), (clock w, INFO, UniqueRegions r)]\<rparr>))"
  by (cases "analyze_ages L \<lparr>df = tbl\<rparr>"; cases "analyze_sexes \<lparr>df = tbl\<rparr>";
      cases "average_charges L \<lparr>df = tbl\<rparr>"; cases "unique_regions \<lparr>df = tbl\<rparr>")
     (simp_all add: automated_analysis_def logging_info_def, blast)

lemma automated_analysis_world:
  "clock (snd (automated_analysis L tbl w)) = clock w"
  "files (snd (automated_analysis L tbl w)) = files w"
  "\<exists>added. logfile (snd (automated_analysis L tbl w)) = logfile w @ added
           \<and> list_all (\<lambda>r. \<not> stage_msg (snd (snd r))) added"
  using automated_analysis_cases [of L tbl w]
  by (auto simp: visualize_data_world split: sum.splits)

subsection \<open>The polling loop\<close>

lemma run_pending_frame: "frame (snd (run_pending L st)) = frame st"
  by (simp add: run_pending_def split: prod.splits sum.splits)

lemma run_pending_world:
  "world (snd (run_pending L st)) =
     (if next_run st \<le> clock (world st)
      then snd (automated_analysis L (frame st) (world st)) else world st)"
  by (simp add: run_pending_def split: prod.splits sum.splits)

lemma time_sleep_simps:
  "frame (time_sleep k st) = frame st"
  "next_run (time_sleep k st) = next_run st"
  "clock (world (time_sleep k st)) = clock (world st) + k * usec_per_sec"
  "files (world (time_sleep k st)) = files (world st)"
  "logfile (world (time_sleep k st)) = logfile (world st)"
  by (simp_all add: time_sleep_def)

lemma run_pending_invariant:
  "files (world (snd (run_pending L st))) = files (world st)"
  "clock (world (snd (run_pending L st))) = clock (world st)"
  "\<exists>added. logfile (world (snd (run_pending L st))) = logfile (world st) @ added
           \<and> list_all (\<lambda>r. \<not> stage_msg (snd (snd r))) added"
  using automated_analysis_world [of L "frame st" "world st"]
  by (auto simp: run_pending_world)

lemma steady_state_invariant:
  "frame (snd (steady_state L n st)) = frame st
   \<and> files (world (snd (steady_state L n st))) = files (world st)
   \<and> (\<exists>added. logfile (world (snd (steady_state L n st))) = logfile (world st) @ added
           \<and> list_all (\<lambda>r. \<not> stage_msg (snd (snd r))) added)"
proof (induction n arbitrary: st)
  case 0
  show ?case by simp
next
  case (Suc n)
  obtain r st1 where rp: "run_pending L st = (r, st1)"
    by (cases "run_pending L st")
  from run_pending_frame [of L st] run_pending_invariant [of L st] rp
  obtain added1 where st1: "frame st1 = frame st" "files (world st1) = files (world st)"
    "logfile (world st1) = logfile (world st) @ added1"
    "list_all (\<lambda>r. \<not> stage_msg (snd (snd r))) added1"
    by auto
  show ?case
  proof (cases r)
    case (Inl e)
    with rp st1 show ?thesis by simp
  next
    case (Inr u)
    from Suc.IH [of "time_sleep 1 st1"] obtain added2 where
      "frame (snd (steady_state L n (time_sleep 1 st1))) = frame st1"
      "files (world (snd (steady_state L n (time_sleep 1 st1)))) = files (world st1)"
      "logfile (world (snd (steady_state L n (time_sleep 1 st1)))) = logfile (world st1) @ added2"
      "list_all (\<lambda>r. \<not> stage_msg (snd (snd r))) added2"
      by (auto simp: time_sleep_simps)
    with rp Inr st1 show ?thesis by simp
  qed
qed

lemma run_pending_ok:
  assumes "analyzable (frame st)"
  shows "fst (run_pending L st) = Inr ()"
  using automated_analysis_ok(1) [OF assms, of L "world st"]
  by (auto simp: run_pending_def split: prod.splits sum.splits)

lemma steady_state_ok:
  assumes "analyzable (frame st)"
  shows "fst (steady_state L n st) = Inr ()"
  using assms
proof (induction n arbitrary: st)
  case 0
  show ?case by simp
next
  case (Suc n)
  obtain r st1 where rp: "run_pending L st = (r, st1)"
    by (cases "run_pending L st")
  with run_pending_ok [OF Suc.prems, of L] run_pending_frame [of L st]
  have "r = Inr ()" "frame st1 = frame st"
    by simp_all
  with Suc.IH [of "time_sleep 1 st1"] Suc.prems rp show ?case
    by (simp add: time_sleep_simps)
qed

lemma startup_ok:
  assumes "read_csv L ''insurance.csv'' w = Inr tbl0"
    and "process_body L tbl0 = (Inr (), tbl)"
    and "write_error L ''processed_insurance.csv'' = None"
    and "analyzable tbl"
  shows "\<exists>w4. startup L w = (Inr (every_day_at_0900_do tbl w4), w4) \<and> clock w4 = clock w"
proof -
  let ?w3 = "logging_info (DataSaved ''processed_insurance.csv'')
      ((logging_info DataProcessed (logging_info DataLoaded w))
         \<lparr>files := (files (logging_info DataProcessed (logging_info DataLoaded w)))
            (''processed_insurance.csv'' \<mapsto> csv_text L tbl False)\<rparr>)"
  obtain r w4 where aa: "automated_analysis L tbl ?w3 = (r, w4)"
    by (cases "automated_analysis L tbl ?w3")
  with automated_analysis_ok(1,2) [OF assms(4), of L ?w3]
  have "r = Inr ()" "clock w4 = clock w"
    by (simp_all add: logging_info_def)
  with aa assms(1,2,3) show ?thesis
    by (simp add: startup_def load_data_def process_data_def save_data_def to_csv_def)
qed

lemma startup_Inr_D:
  assumes "startup L w = (Inr st, w')"
  shows "\<exists>tbl0. read_csv L ''insurance.csv'' w = Inr tbl0
           \<and> process_body L tbl0 = (Inr (), frame st) \<and> world st = w'"
  using assms
  by (auto simp: startup_def load_data_def process_data_def every_day_at_0900_do_def
        split: sum.splits prod.splits)

lemma ref_process_insurance:
  "process_body (ref_lib t) insurance_raw = (Inr (), insurance_processed)"
  by (simp add: process_body_def getitem_def setitem_def ref_lib_def
        insurance_raw_def insurance_processed_def)

lemma analyzable_insurance: "analyzable insurance_processed"
  by (simp add: analyzable_def numeric_column_def has_column_def insurance_processed_def)

lemma ref_read_insurance:
  "read_csv (ref_lib t) ''insurance.csv'' world_0859 = Inr t"
  by (simp add: read_csv_def ref_lib_def world_0859_def)

lemma plotting_update_stages:
  "read_csv (L\<lparr>group_means := g, plt_figure := pf, render := r\<rparr>) p w = read_csv L p w"
  "process_body (L\<lparr>group_means := g, plt_figure := pf, render := r\<rparr>) t = process_body L t"
  by (simp_all add: read_csv_def process_body_def Let_def
        cong: option.case_cong sum.case_cong)

lemma main_ok:
  assumes "read_csv L ''insurance.csv'' w = Inr tbl0"
    and "process_body L tbl0 = (Inr (), tbl)"
    and "write_error L ''processed_insurance.csv'' = None"
    and "analyzable tbl"
  shows "\<not> isl (fst (main L n w))"
proof -
  from startup_ok [OF assms] obtain w4 where
    s: "startup L w = (Inr (every_day_at_0900_do tbl w4), w4)"
    by blast
  have "analyzable (frame (every_day_at_0900_do tbl w4))"
    using assms(4) by (simp add: every_day_at_0900_do_def)
  from steady_state_ok [OF this, of L n] s show ?thesis
    by (cases "steady_state L n (every_day_at_0900_do tbl w4)") (simp add: main_def)
qed

text \<open>
  Claim C7.  \<open>visualize_data\<close> never raises: an exception raised while a chart is built
  or displayed is logged as an error and swallowed.  The other stages re-raise: a failure
  of the Loader, the Transformer or the Persister is logged and raised again, and a
  failing Analyzer query makes \<open>automated_analysis\<close> raise.  So when the Loader, the
  Transformer and the Persister succeed and the processed table has the columns the
  Analyzer reads, \<open>main\<close> runs through any number of loop iterations without an
  exception, whatever the plotting backend does.
\<close>

theorem visualize_data_swallows_errors:
  "fst (visualize_data L tbl w) = Inr ()
   \<and> (fst (visualize_body L tbl w) = Inl e \<longrightarrow>
        logfile (snd (visualize_data L tbl w)) = logfile w @ [(clock w, ERROR, ErrorVisualizing e)])
   \<and> (read_csv L p1 w = Inl e1 \<longrightarrow>
        load_data L p1 w = (Inl e1, logging_error (ErrorLoading e1) w))
   \<and> (fst (process_body L tbl2) = Inl e2 \<longrightarrow> fst (process_data L tbl2 w) = Inl e2)
   \<and> (to_csv L tbl p3 False w = Inl e3 \<longrightarrow>
        save_data L tbl p3 w = (Inl e3, logging_error (ErrorSaving e3) w))
   \<and> (isl (analyze_ages L \<lparr>df = tbl4\<rparr>) \<or> isl (analyze_sexes \<lparr>df = tbl4\<rparr>)
        \<or> isl (average_charges L \<lparr>df = tbl4\<rparr>) \<or> isl (unique_regions \<lparr>df = tbl4\<rparr>) \<longrightarrow>
        isl (fst (automated_analysis L tbl4 w)))
   \<and> (read_csv L ''insurance.csv'' w = Inr tbl0 \<and> process_body L tbl0 = (Inr (), tbl1)
        \<and> write_error L ''processed_insurance.csv'' = None \<and> analyzable tbl1 \<longrightarrow>
        (\<forall>n. \<not> isl (fst (main (L\<lparr>group_means := g, plt_figure := pf, render := r\<rparr>) n w))))"
proof (intro conjI impI allI)
  show "fst (visualize_data L tbl w) = Inr ()"
    by (rule visualize_data_fst)
  show "logfile (snd (visualize_data L tbl w)) = logfile w @ [(clock w, ERROR, ErrorVisualizing e)]"
    if "fst (visualize_body L tbl w) = Inl e"
    using that by (simp add: visualize_data_world)
  show "load_data L p1 w = (Inl e1, logging_error (ErrorLoading e1) w)"
    if "read_csv L p1 w = Inl e1"
    using that by (simp add: load_data_def)
  show "fst (process_data L tbl2 w) = Inl e2" if "fst (process_body L tbl2) = Inl e2"
    using that by (cases "process_body L tbl2") (simp add: process_data_def)
  show "save_data L tbl p3 w = (Inl e3, logging_error (ErrorSaving e3) w)"
    if "to_csv L tbl p3 False w = Inl e3"
    using that by (simp add: save_data_def)
  show "isl (fst (automated_analysis L tbl4 w))"
    if "isl (analyze_ages L \<lparr>df = tbl4\<rparr>) \<or> isl (analyze_sexes \<lparr>df = tbl4\<rparr>)
        \<or> isl (average_charges L \<lparr>df = tbl4\<rparr>) \<or> isl (unique_regions \<lparr>df = tbl4\<rparr>)"
    using that
    by (cases "analyze_ages L \<lparr>df = tbl4\<rparr>"; cases "analyze_sexes \<lparr>df = tbl4\<rparr>";
        cases "average_charges L \<lparr>df = tbl4\<rparr>"; cases "unique_regions \<lparr>df = tbl4\<rparr>")
       (simp_all add: automated_analysis_def)
  show "\<not> isl (fst (main (L\<lparr>group_means := g, plt_figure := pf, render := r\<rparr>) n w))"
    if h: "read_csv L ''insurance.csv'' w = Inr tbl0 \<and> process_body L tbl0 = (Inr (), tbl1)
        \<and> write_error L ''processed_insurance.csv'' = None \<and> analyzable tbl1" for n
  proof (rule main_ok)
    let ?L = "L\<lparr>group_means := g, plt_figure := pf, render := r\<rparr>"
    show "read_csv ?L ''insurance.csv'' w = Inr tbl0"
      using h by (simp add: plotting_update_stages)
    show "process_body ?L tbl0 = (Inr (), tbl1)"
      using h by (simp add: plotting_update_stages)
    show "write_error ?L ''processed_insurance.csv'' = None"
      using h by simp
    show "analyzable tbl1"
      using h by simp
  qed
qed

theorem visualize_data_swallows_errors_witness:
  "fst (visualize_body (ref_lib insurance_raw) insurance_no_smoker world_0859) = Inl (KeyError ''smoker'')
   \<and> fst (visualize_data (ref_lib insurance_raw) insurance_no_smoker world_0859) = Inr ()
   \<and> logfile (snd (visualize_data (ref_lib insurance_raw) insurance_no_smoker world_0859))
       = [(32399000000, ERROR, ErrorVisualizing (KeyError ''smoker''))]
   \<and> read_csv (ref_lib insurance_raw) ''missing.csv'' world_0859 = Inl (FileNotFoundError ''missing.csv'')
   \<and> fst (load_data (ref_lib insurance_raw) ''missing.csv'' world_0859) = Inl (FileNotFoundError ''missing.csv'')
   \<and> fst (process_body (ref_lib insurance_raw) [(''age'', [CStr ''abc'']), (''charges'', [CInt 100])])
       = Inl (ValueError ''abc'')
   \<and> fst (process_data (ref_lib insurance_raw) [(''age'', [CStr ''abc'']), (''charges'', [CInt 100])] world_0859)
       = Inl (ValueError ''abc'')
   \<and> to_csv (ref_lib insurance_raw) insurance_no_smoker [] False world_0859 = Inl (FileNotFoundError [])
   \<and> fst (save_data (ref_lib insurance_raw) insurance_no_smoker [] world_0859) = Inl (FileNotFoundError [])
   \<and> isl (analyze_ages (ref_lib insurance_raw) \<lparr>df = []\<rparr>)
   \<and> isl (fst (automated_analysis (ref_lib insurance_raw) [] world_0859))
   \<and> read_csv (ref_lib insurance_raw) ''insurance.csv'' world_0859 = Inr insurance_raw
   \<and> process_body (ref_lib insurance_raw) insurance_raw = (Inr (), insurance_processed)
   \<and> write_error (ref_lib insurance_raw) ''processed_insurance.csv'' = None
   \<and> analyzable insurance_processed
   \<and> render ((ref_lib insurance_raw)\<lparr>group_means := ref_group_means, plt_figure := None, render := no_display\<rparr>)
        \<lparr>title = [], xlabel = [], ylabel = [], palette = [], bars = []\<rparr> = Some (OtherError ''no display'')
   \<and> \<not> isl (fst (main ((ref_lib insurance_raw)\<lparr>group_means := ref_group_means, plt_figure := None, render := no_display\<rparr>)
                  3 world_0859))"
proof -
  let ?L = "ref_lib insurance_raw"
  let ?bad = "[(''age'', [CStr ''abc'']), (''charges'', [CInt 100 :: rat cell])]"
  have v: "fst (visualize_body ?L insurance_no_smoker world_0859) = Inl (KeyError ''smoker'')"
    by (simp add: visualize_body_def draw_chart_def groupby_mean_def getitem_def ref_lib_def
          ref_group_means_def insurance_no_smoker_def)
  have l: "read_csv ?L ''missing.csv'' world_0859 = Inl (FileNotFoundError ''missing.csv'')"
    by (simp add: read_csv_def world_0859_def)
  have p: "fst (process_body ?L ?bad) = Inl (ValueError ''abc'')"
    by (simp add: process_body_def getitem_def setitem_def ref_lib_def parse_number_def is_digit_def)
  have s: "to_csv ?L insurance_no_smoker [] False world_0859 = Inl (FileNotFoundError [])"
    by (simp add: to_csv_def ref_lib_def)
  have a: "isl (analyze_ages ?L \<lparr>df = []\<rparr>)"
    by (simp add: analyze_ages_def getitem_def)
  have m: "read_csv ?L ''insurance.csv'' world_0859 = Inr insurance_raw"
    "process_body ?L insurance_raw = (Inr (), insurance_processed)"
    "write_error ?L ''processed_insurance.csv'' = None"
    "analyzable insurance_processed"
    by (simp_all add: ref_read_insurance ref_process_insurance analyzable_insurance)
       (simp add: ref_lib_def)
  have r: "render (?L\<lparr>group_means := ref_group_means, plt_figure := None, render := no_display\<rparr>)
        \<lparr>title = [], xlabel = [], ylabel = [], palette = [], bars = []\<rparr> = Some (OtherError ''no display'')"
    by (simp add: no_display_def)
  from visualize_data_swallows_errors [where L = ?L and tbl = insurance_no_smoker
      and w = world_0859 and e = "KeyError ''smoker''"
      and ?p1.0 = "''missing.csv''" and ?e1.0 = "FileNotFoundError ''missing.csv''"
      and ?tbl2.0 = ?bad and ?e2.0 = "ValueError ''abc''"
      and ?p3.0 = "[]" and ?e3.0 = "FileNotFoundError []"
      and ?tbl4.0 = "[]" and ?tbl0.0 = insurance_raw and ?tbl1.0 = insurance_processed
      and g = ref_group_means and pf = None and r = no_display]
    v l p s a m r
  show ?thesis
    by (simp add: world_0859_def)
qed

subsection \<open>A table without the smoker column\<close>

lemma draw_chart_missing_key:
  assumes "map_of tbl key = None"
  shows "draw_chart L tbl key xl ttl pal w =
           (Inl (case plt_figure L of Some e \<Rightarrow> e | None \<Rightarrow> KeyError key), w)"
  using assms by (simp add: draw_chart_def groupby_mean_def getitem_def split: option.splits)

lemma visualize_body_missing_smoker:
  assumes "map_of tbl ''smoker'' = None"
  shows "isl (fst (visualize_body L tbl w))"
proof -
  obtain r w1 where d: "draw_chart L tbl ''region'' ''Region''
      ''Average Medical Insurance Charges by Region'' ''Blues'' w = (r, w1)"
    by (cases "draw_chart L tbl ''region'' ''Region''
      ''Average Medical Insurance Charges by Region'' ''Blues'' w")
  show ?thesis
    using d by (cases r) (simp_all add: visualize_body_def draw_chart_missing_key [OF assms])
qed

lemma visualize_body_region_only:
  assumes "map_of tbl ''smoker'' = None" and "plt_figure L = None"
    and "getitem tbl ''region'' = Inr rg" and "getitem tbl ''charges'' = Inr cs"
    and "group_means L rg cs = Inr g"
    and "render L \<lparr>title = ''Average Medical Insurance Charges by Region'', xlabel = ''Region'',
            ylabel = ''Average Charges ($)'', palette = ''Blues'', bars = g\<rparr> = None"
  shows "visualize_body L tbl w =
           (Inl (KeyError ''smoker''),
            w\<lparr>shown := shown w @ [\<lparr>title = ''Average Medical Insurance Charges by Region'',
                 xlabel = ''Region'', ylabel = ''Average Charges ($)'', palette = ''Blues'', bars = g\<rparr>]\<rparr>)"
proof -
  have "draw_chart L tbl ''region'' ''Region''
      ''Average Medical Insurance Charges by Region'' ''Blues'' w =
      (Inr (), w\<lparr>shown := shown w @ [\<lparr>title = ''Average Medical Insurance Charges by Region'',
                 xlabel = ''Region'', ylabel = ''Average Charges ($)'', palette = ''Blues'', bars = g\<rparr>]\<rparr>)"
    using assms(2-6) by (simp add: draw_chart_def groupby_mean_def)
  then show ?thesis
    using assms(2) by (simp add: visualize_body_def draw_chart_missing_key [OF assms(1)])
qed

text \<open>
  Claim C10.  For a table that has the columns \<open>age\<close>, \<open>sex\<close>, \<open>region\<close> and \<open>charges\<close>, with
  \<open>age\<close> and \<open>charges\<close> numeric as the Transformer leaves them, and that has no \<open>smoker\<close>
  column, a run of \<open>automated_analysis\<close> does not raise: the four Analyzer queries
  succeed and are logged, and the visualization error is logged and swallowed.  When the
  region chart is displayed, that error is the KeyError for \<open>smoker\<close>.
\<close>

theorem missing_smoker_column_is_survived:
  assumes "getitem tbl ''age'' = Inr ags" and "list_all is_numeric ags"
    and "getitem tbl ''sex'' = Inr sx"
    and "getitem tbl ''charges'' = Inr cs" and "list_all is_numeric cs"
    and "getitem tbl ''region'' = Inr rg"
    and "map_of tbl ''smoker'' = None"
  shows "fst (automated_analysis L tbl w) = Inr ()
     \<and> analyze_ages L \<lparr>df = tbl\<rparr> = Inr (round_nd L (fmean L ags) 2)
     \<and> analyze_sexes \<lparr>df = tbl\<rparr> = Inr (value_counts sx)
     \<and> average_charges L \<lparr>df = tbl\<rparr> = Inr (round_nd L (fmean L cs) 2)
     \<and> unique_regions \<lparr>df = tbl\<rparr> = Inr (unique rg)
     \<and> (\<exists>e. logfile (snd (automated_analysis L tbl w)) =
            logfile w @
              [(clock w, INFO, AvgAge (round_nd L (fmean L ags) 2)),
               (clock w, INFO, SexDistribution (value_counts sx)),
               (clock w, INFO, AvgCharges (round_nd L (fmean L cs) 2)),
               (clock w, INFO, UniqueRegions (unique rg)),
               (clock w, ERROR, ErrorVisualizing e)])
     \<and> (plt_figure L = None \<and> group_means L rg cs = Inr g
          \<and> render L \<lparr>title = ''Average Medical Insurance Charges by Region'', xlabel = ''Region'',
               ylabel = ''Average Charges ($)'', palette = ''Blues'', bars = g\<rparr> = None \<longrightarrow>
          logfile (snd (automated_analysis L tbl w)) =
            logfile w @
              [(clock w, INFO, AvgAge (round_nd L (fmean L ags) 2)),
               (clock w, INFO, SexDistribution (value_counts sx)),
               (clock w, INFO, AvgCharges (round_nd L (fmean L cs) 2)),
               (clock w, INFO, UniqueRegions (unique rg)),
               (clock w, ERROR, ErrorVisualizing (KeyError ''smoker''))])"
proof -
  let ?w4 = "w\<lparr>logfile := logfile w @
                  [(clock w, INFO, AvgAge (round_nd L (fmean L ags) 2)),
                   (clock w, INFO, SexDistribution (value_counts sx)),
                   (clock w, INFO, AvgCharges (round_nd L (fmean L cs) 2)),
                   (clock w, INFO, UniqueRegions (unique rg))]\<rparr>"
  have aa: "automated_analysis L tbl w = visualize_data L tbl ?w4"
    by (rule automated_analysis_analyzable [OF assms(1-6)])
  have q: "analyze_ages L \<lparr>df = tbl\<rparr> = Inr (round_nd L (fmean L ags) 2)"
    "analyze_sexes \<lparr>df = tbl\<rparr> = Inr (value_counts sx)"
    "average_charges L \<lparr>df = tbl\<rparr> = Inr (round_nd L (fmean L cs) 2)"
    "unique_regions \<lparr>df = tbl\<rparr> = Inr (unique rg)"
    using assms(1-6)
    by (simp_all add: analyze_ages_def analyze_sexes_def average_charges_def unique_regions_def mean_def)
  from visualize_body_missing_smoker [OF assms(7), of L ?w4]
  obtain e where e: "fst (visualize_body L tbl ?w4) = Inl e"
    by (cases "fst (visualize_body L tbl ?w4)") auto
  have lg: "\<exists>e. logfile (snd (automated_analysis L tbl w)) = logfile ?w4 @ [(clock w, ERROR, ErrorVisualizing e)]"
    using e by (simp add: aa visualize_data_world)
  have smoker: "logfile (snd (automated_analysis L tbl w)) =
      logfile ?w4 @ [(clock w, ERROR, ErrorVisualizing (KeyError ''smoker''))]"
    if "plt_figure L = None" "group_means L rg cs = Inr g"
      "render L \<lparr>title = ''Average Medical Insurance Charges by Region'', xlabel = ''Region'',
               ylabel = ''Average Charges ($)'', palette = ''Blues'', bars = g\<rparr> = None"
    using visualize_body_region_only [OF assms(7) that(1) assms(6) assms(4) that(2) that(3), of ?w4]
    by (simp add: aa visualize_data_world)
  show ?thesis
    using q lg smoker by (simp add: aa visualize_data_fst)
qed

theorem missing_smoker_column_is_survived_witness:
  "getitem insurance_no_smoker ''age'' = Inr [CInt 19, CInt 33]
   \<and> list_all is_numeric [CInt 19, CInt 33 :: rat cell]
   \<and> getitem insurance_no_smoker ''sex'' = Inr [CStr ''female'', CStr ''male'']
   \<and> getitem insurance_no_smoker ''charges'' = Inr [CFloat 1700, CFloat (3449 / 2)]
   \<and> list_all is_numeric [CFloat 1700, CFloat (3449 / 2 :: rat)]
   \<and> getitem insurance_no_smoker ''region'' = Inr [CStr ''southwest'', CStr ''southeast'']
   \<and> map_of insurance_no_smoker ''smoker'' = None
   \<and> plt_figure (ref_lib insurance_raw) = None
   \<and> group_means (ref_lib insurance_raw) [CStr ''southwest'', CStr ''southeast'']
        [CFloat 1700, CFloat (3449 / 2)]
       = Inr [(CStr ''southwest'', 1700), (CStr ''southeast'', 3449 / 2)]
   \<and> render (ref_lib insurance_raw)
        \<lparr>title = ''Average Medical Insurance Charges by Region'', xlabel = ''Region'',
         ylabel = ''Average Charges ($)'', palette = ''Blues'',
         bars = [(CStr ''southwest'', 1700), (CStr ''southeast'', 3449 / 2)]\<rparr> = None
   \<and> fst (automated_analysis (ref_lib insurance_raw) insurance_no_smoker world_0859) = Inr ()
   \<and> logfile (snd (automated_analysis (ref_lib insurance_raw) insurance_no_smoker world_0859)) =
        [(32399000000, INFO, AvgAge 26),
         (32399000000, INFO, SexDistribution [(CStr ''female'', 1), (CStr ''male'', 1)]),
         (32399000000, INFO, AvgCharges (171225 / 100)),
         (32399000000, INFO, UniqueRegions [CStr ''southwest'', CStr ''southeast'']),
         (32399000000, ERROR, ErrorVisualizing (KeyError ''smoker''))]"
proof -
  let ?L = "ref_lib insurance_raw"
  have c: "getitem insurance_no_smoker ''age'' = Inr [CInt 19, CInt 33]"
    "list_all is_numeric [CInt 19, CInt 33 :: rat cell]"
    "getitem insurance_no_smoker ''sex'' = Inr [CStr ''female'', CStr ''male'']"
    "getitem insurance_no_smoker ''charges'' = Inr [CFloat 1700, CFloat (3449 / 2)]"
    "list_all is_numeric [CFloat 1700, CFloat (3449 / 2 :: rat)]"
    "getitem insurance_no_smoker ''region'' = Inr [CStr ''southwest'', CStr ''southeast'']"
    "map_of insurance_no_smoker ''smoker'' = None"
    by (simp_all add: getitem_def insurance_no_smoker_def)
  have b: "plt_figure ?L = None"
    "group_means ?L [CStr ''southwest'', CStr ''southeast''] [CFloat 1700, CFloat (3449 / 2)]
       = Inr [(CStr ''southwest'', 1700), (CStr ''southeast'', 3449 / 2)]"
    "render ?L
        \<lparr>title = ''Average Medical Insurance Charges by Region'', xlabel = ''Region'',
         ylabel = ''Average Charges ($)'', palette = ''Blues'',
         bars = [(CStr ''southwest'', 1700), (CStr ''southeast'', 3449 / 2)]\<rparr> = None"
    by (simp_all add: ref_lib_def ref_group_means_def ref_fmean_def unique_def)
  have v: "round_nd ?L (fmean ?L [CInt 19, CInt 33]) 2 = 26"
    "round_nd ?L (fmean ?L [CFloat 1700, CFloat (3449 / 2)]) 2 = 171225 / 100"
    "value_counts [CStr ''female'', CStr ''male'' :: rat cell] = [(CStr ''female'', 1), (CStr ''male'', 1)]"
    "unique [CStr ''southwest'', CStr ''southeast'' :: rat cell] = [CStr ''southwest'', CStr ''southeast'']"
    by (simp_all add: ref_lib_def ref_fmean_def ref_round_def value_counts_def tally_def
          sort_values_desc_def unique_def floor_eq_iff)
  from missing_smoker_column_is_survived [OF c, where L = ?L and w = world_0859
      and g = "[(CStr ''southwest'', 1700), (CStr ''southeast'', 3449 / 2)]"] b c v
  show ?thesis
    by (simp add: world_0859_def)
qed

section \<open>Properties of the scheduling loop\<close>

subsection \<open>The next occurrence of 09:00\<close>

lemma at_0900_less_day: "at_0900 < day_len"
  by (simp add: at_0900_def day_len_def usec_per_sec_def)

lemma next_occurrence_after: "now < next_occurrence now"
proof -
  have "now < now div day_len * day_len + day_len"
    using div_mult_mod_eq [of now day_len] mod_less_divisor [of day_len now]
    by (simp add: day_len_def usec_per_sec_def)
  then show ?thesis
    by (simp add: next_occurrence_def Let_def)
qed

lemma next_occurrence_mod: "next_occurrence now mod day_len = at_0900"
  using at_0900_less_day by (simp add: next_occurrence_def Let_def)

lemma next_occurrence_step:
  assumes "T mod day_len = at_0900" and "T \<le> f" and "f < T + day_len"
  shows "next_occurrence f = T + day_len"
proof -
  define q where "q = T div day_len"
  have T: "T = q * day_len + at_0900"
    using assms(1) div_mult_mod_eq [of T day_len] by (simp add: q_def)
  have pos: "0 < day_len"
    by (simp add: day_len_def usec_per_sec_def)
  show ?thesis
  proof (cases "f < (q + 1) * day_len")
    case True
    have "q * day_len \<le> f"
      using assms(2) T by simp
    then have "f div day_len = q"
      using True pos by (simp add: div_nat_eqI mult.commute)
    then show ?thesis
      using assms(2) T by (simp add: next_occurrence_def Let_def)
  next
    case False
    then have lo: "(q + 1) * day_len \<le> f"
      by simp
    have "f < (q + 2) * day_len"
      using assms(3) T at_0900_less_day by simp
    then have "f div day_len = q + 1"
      using lo pos by (simp add: div_nat_eqI mult.commute)
    then show ?thesis
      using assms(3) T by (simp add: next_occurrence_def Let_def)
  qed
qed

lemma ceil_div_props:
  fixes a d :: nat
  assumes "0 < d"
  defines "k \<equiv> (a + d - 1) div d"
  shows "a \<le> k * d" and "k * d < a + d" and "j < k \<Longrightarrow> j * d < a"
proof -
  have eq: "k * d + (a + d - 1) mod d = a + d - 1"
    unfolding k_def by (rule div_mult_mod_eq)
  have r: "(a + d - 1) mod d < d"
    using assms(1) by simp
  from eq r assms(1) show "a \<le> k * d"
    by linarith
  from eq assms(1) show "k * d < a + d"
    by linarith
  show "j * d < a" if "j < k"
  proof -
    from that have "Suc j \<le> k"
      by simp
    then have "Suc j * d \<le> k * d"
      by (rule mult_le_mono1)
    with eq assms(1) show ?thesis
      by simp
  qed
qed

lemma first_tick:
  shows "a \<le> ((a + usec_per_sec - 1) div usec_per_sec) * usec_per_sec"
    and "((a + usec_per_sec - 1) div usec_per_sec) * usec_per_sec < a + usec_per_sec"
    and "j < (a + usec_per_sec - 1) div usec_per_sec \<Longrightarrow> j * usec_per_sec < a"
proof -
  have "0 < usec_per_sec"
    by (simp add: usec_per_sec_def)
  from ceil_div_props [OF this, of a] ceil_div_props(3) [OF this, of j a]
  show "a \<le> ((a + usec_per_sec - 1) div usec_per_sec) * usec_per_sec"
    and "((a + usec_per_sec - 1) div usec_per_sec) * usec_per_sec < a + usec_per_sec"
    and "j < (a + usec_per_sec - 1) div usec_per_sec \<Longrightarrow> j * usec_per_sec < a"
    by simp_all
qed

subsection \<open>Idle polls and the due poll\<close>

lemma steady_state_add:
  "steady_state L (m + n) st =
     (case steady_state L m st of
        (Inl e, s) \<Rightarrow> (Inl e, s)
      | (Inr u, s) \<Rightarrow> steady_state L n s)"
proof (induction m arbitrary: st)
  case 0
  show ?case by simp
next
  case (Suc m)
  show ?case
    by (cases "run_pending L st"; cases "fst (run_pending L st)") (simp_all add: Suc.IH)
qed

lemma steady_state_idle:
  assumes "n \<noteq> 0 \<longrightarrow> clock (world st) + (n - 1) * usec_per_sec < next_run st"
  shows "steady_state L n st =
           (Inr (), st\<lparr>world := (world st)\<lparr>clock := clock (world st) + n * usec_per_sec\<rparr>\<rparr>)"
  using assms
proof (induction n arbitrary: st)
  case 0
  show ?case by simp
next
  case (Suc n)
  from Suc.prems have idle: "\<not> next_run st \<le> clock (world st)"
    by simp
  then have rp: "run_pending L st = (Inr (), st)"
    by (simp add: run_pending_def)
  have "n \<noteq> 0 \<longrightarrow> clock (world (time_sleep 1 st)) + (n - 1) * usec_per_sec < next_run (time_sleep 1 st)"
    using Suc.prems by (cases n) (simp_all add: time_sleep_simps)
  from Suc.IH [OF this] rp show ?case
    by (simp add: time_sleep_def add.assoc)
qed

lemma run_pending_due:
  assumes "analyzable (frame st)" and "next_run st \<le> clock (world st)"
  shows "run_pending L st =
           (Inr (), st\<lparr>next_run := next_occurrence (clock (world st)),
                       world := snd (automated_analysis L (frame st) (world st))\<rparr>)"
  using automated_analysis_ok(1,2) [OF assms(1), of L "world st"] assms(2)
  by (cases "automated_analysis L (frame st) (world st)") (simp add: run_pending_def)

lemma automated_analysis_Inr_analyzable:
  assumes "fst (automated_analysis L tbl w) = Inr u"
  shows "analyzable tbl"
proof -
  have q: "\<not> isl (analyze_ages L \<lparr>df = tbl\<rparr>)" "\<not> isl (analyze_sexes \<lparr>df = tbl\<rparr>)"
    "\<not> isl (average_charges L \<lparr>df = tbl\<rparr>)" "\<not> isl (unique_regions \<lparr>df = tbl\<rparr>)"
    using assms
    by (cases "analyze_ages L \<lparr>df = tbl\<rparr>"; cases "analyze_sexes \<lparr>df = tbl\<rparr>";
        cases "average_charges L \<lparr>df = tbl\<rparr>"; cases "unique_regions \<lparr>df = tbl\<rparr>";
        simp add: automated_analysis_def)+
  then show ?thesis
    by (auto simp: analyzable_def numeric_column_def has_column_def analyze_ages_def
          analyze_sexes_def average_charges_def unique_regions_def getitem_def mean_def
          split: option.splits if_splits)
qed

lemma startup_Inr_state:
  assumes "startup L w = (Inr st, w')"
  shows "st = every_day_at_0900_do (frame st) w'" and "analyzable (frame st)"
    and "clock w' = clock w"
proof -
  from assms obtain tbl0 tbl tbl' w2 w3 u where
    p: "process_data L tbl0 (logging_info DataLoaded w) = (Inr tbl, tbl', w2)" and
    s: "save_data L tbl ''processed_insurance.csv'' w2 = (Inr u, w3)" and
    a: "automated_analysis L tbl w3 = (Inr (), w')" and
    st: "st = every_day_at_0900_do tbl w'"
    by (auto simp: startup_def load_data_def split: sum.splits prod.splits)
  from st show "st = every_day_at_0900_do (frame st) w'"
    by (simp add: every_day_at_0900_do_def)
  from a have "fst (automated_analysis L tbl w3) = Inr ()"
    by simp
  from automated_analysis_Inr_analyzable [OF this] st show "analyzable (frame st)"
    by (simp add: every_day_at_0900_do_def)
  from p have "clock w2 = clock w"
    by (auto simp: process_data_def logging_info_def logging_error_def split: prod.splits sum.splits)
  moreover from s have "clock w3 = clock w2"
    by (auto simp: save_data_def to_csv_def logging_info_def logging_error_def
          split: prod.splits sum.splits option.splits)
  moreover from a automated_analysis_world(1) [of L tbl w3] have "clock w' = clock w3"
    by simp
  ultimately show "clock w' = clock w"
    by simp
qed

lemma steady_state_fires_once:
  fixes L :: "'f lib" and tbl :: "'f table" and w :: "'f world"
  assumes an: "analyzable tbl" and horizon: "n * usec_per_sec \<le> day_len"
  defines "T \<equiv> next_occurrence (clock w)"
  defines "k \<equiv> (T - clock w + usec_per_sec - 1) div usec_per_sec"
  defines "st0 \<equiv> every_day_at_0900_do tbl w"
  shows "fst (steady_state L n st0) = Inr ()"
    and "fired_at (logfile (world (snd (steady_state L n st0)))) =
           fired_at (logfile w) @ (if k < n then [clock w + k * usec_per_sec] else [])"
proof -
  have tT: "clock w < T"
    unfolding T_def by (rule next_occurrence_after)
  have k1: "T \<le> clock w + k * usec_per_sec"
    and k2: "clock w + k * usec_per_sec < T + usec_per_sec"
    and k3: "j < k \<Longrightarrow> clock w + j * usec_per_sec < T" for j
    using first_tick(1,2) [of "T - clock w"] first_tick(3) [of j "T - clock w"] tT
    unfolding k_def by linarith+
  have st0: "frame st0 = tbl" "next_run st0 = T" "world st0 = w"
    by (simp_all add: st0_def every_day_at_0900_do_def T_def)
  have both: "fst (steady_state L n st0) = Inr () \<and>
     fired_at (logfile (world (snd (steady_state L n st0)))) =
           fired_at (logfile w) @ (if k < n then [clock w + k * usec_per_sec] else [])"
  proof (cases "k < n")
    case False
    have "n \<noteq> 0 \<longrightarrow> clock (world st0) + (n - 1) * usec_per_sec < next_run st0"
      using False k3 [of "n - 1"] by (simp add: st0)
    from steady_state_idle [OF this, of L] False show ?thesis
      by (simp add: st0)
  next
    case True
    define m where "m = n - Suc k"
    have n: "n = k + Suc m"
      using True by (simp add: m_def)
    define st1 where "st1 = st0\<lparr>world := w\<lparr>clock := clock w + k * usec_per_sec\<rparr>\<rparr>"
    have "k \<noteq> 0 \<longrightarrow> clock (world st0) + (k - 1) * usec_per_sec < next_run st0"
      using k3 [of "k - 1"] by (simp add: st0)
    from steady_state_idle [OF this, of L]
    have phase1: "steady_state L k st0 = (Inr (), st1)"
      by (simp add: st1_def st0)
    have st1: "frame st1 = tbl" "next_run st1 = T" "clock (world st1) = clock w + k * usec_per_sec"
      "logfile (world st1) = logfile w"
      by (simp_all add: st1_def st0)
    define w2 where "w2 = snd (automated_analysis L tbl (world st1))"
    define st2 where "st2 = st1\<lparr>next_run := T + day_len, world := w2\<rparr>"
    have "next_occurrence (clock (world st1)) = T + day_len"
    proof (rule next_occurrence_step)
      show "T mod day_len = at_0900"
        unfolding T_def by (rule next_occurrence_mod)
      show "T \<le> clock (world st1)"
        using k1 by (simp add: st1)
      show "clock (world st1) < T + day_len"
        using k2 by (simp add: st1 day_len_def usec_per_sec_def)
    qed
    with run_pending_due [of st1 L] an k1
    have phase2: "run_pending L st1 = (Inr (), st2)"
      by (simp add: st1 st2_def w2_def)
    have w2: "clock w2 = clock w + k * usec_per_sec"
      "fired_at (logfile w2) = fired_at (logfile w) @ [clock w + k * usec_per_sec]"
      using automated_analysis_ok(2,3) [OF an, of L "world st1"] by (simp_all add: w2_def st1)
    have "m \<noteq> 0 \<longrightarrow> clock (world (time_sleep 1 st2)) + (m - 1) * usec_per_sec
            < next_run (time_sleep 1 st2)"
    proof
      assume "m \<noteq> 0"
      then have "k * usec_per_sec + 1 * usec_per_sec + (m - 1) * usec_per_sec
                  = (k + m) * usec_per_sec"
        by (cases m) (simp_all add: algebra_simps)
      then have e1: "clock (world (time_sleep 1 st2)) + (m - 1) * usec_per_sec
                  = clock w + (k + m) * usec_per_sec"
        by (simp add: time_sleep_simps st2_def w2)
      have "(k + m) * usec_per_sec < n * usec_per_sec"
        by (simp add: n usec_per_sec_def)
      with horizon tT have e2: "clock w + (k + m) * usec_per_sec < T + day_len"
        by linarith
      have "next_run (time_sleep 1 st2) = T + day_len"
        by (simp add: time_sleep_simps st2_def)
      with e1 e2 show "clock (world (time_sleep 1 st2)) + (m - 1) * usec_per_sec
            < next_run (time_sleep 1 st2)"
        by simp
    qed
    from steady_state_idle [OF this, of L]
    have phase3: "fst (steady_state L m (time_sleep 1 st2)) = Inr ()"
      "logfile (world (snd (steady_state L m (time_sleep 1 st2)))) = logfile w2"
      by (simp_all add: time_sleep_simps st2_def)
    have "steady_state L (k + Suc m) st0 = steady_state L (Suc m) st1"
      by (simp only: steady_state_add phase1 prod.case sum.case)
    also have "\<dots> = steady_state L m (time_sleep 1 st2)"
      by (simp add: phase2)
    finally have "steady_state L n st0 = steady_state L m (time_sleep 1 st2)"
      by (simp only: n)
    with phase3 w2 True show ?thesis
      by simp
  qed
  from both show "fst (steady_state L n st0) = Inr ()"
    by simp
  from both show "fired_at (logfile (world (snd (steady_state L n st0)))) =
           fired_at (logfile w) @ (if k < n then [clock w + k * usec_per_sec] else [])"
    by simp
qed

lemma main_after_startup:
  assumes "startup L w = (Inr st0, w0)"
  shows "snd (main L n w) = world (snd (steady_state L n st0))"
    and "isl (fst (main L n w)) = isl (fst (steady_state L n st0))"
  using assms
  by (cases "steady_state L n st0"; cases "fst (steady_state L n st0)"; simp add: main_def)+

lemma steady_state_Suc_end:
  "steady_state L (Suc n) st =
     (case steady_state L n st of
        (Inl e, s) \<Rightarrow> (Inl e, s)
      | (Inr u, s) \<Rightarrow>
         (case run_pending L s of
            (Inl e, s') \<Rightarrow> (Inl e, s')
          | (Inr u, s') \<Rightarrow> (Inr (), time_sleep 1 s')))"
proof -
  have "steady_state L (n + 1) st =
     (case steady_state L n st of (Inl e, s) \<Rightarrow> (Inl e, s) | (Inr u, s) \<Rightarrow> steady_state L 1 s)"
    by (rule steady_state_add)
  then show ?thesis
    by (simp split: prod.splits sum.splits)
qed

lemma ref_startup:
  "\<exists>w4. startup (ref_lib insurance_raw) world_0859
           = (Inr (every_day_at_0900_do insurance_processed w4), w4)
        \<and> clock w4 = 32399000000"
proof -
  have "write_error (ref_lib insurance_raw) ''processed_insurance.csv'' = None"
    by (simp add: ref_lib_def)
  from startup_ok [OF ref_read_insurance ref_process_insurance this analyzable_insurance]
  show ?thesis
    by (simp add: world_0859_def)
qed

text \<open>
  Claim C8.  After a successful startup the one job is registered for the next 09:00:00.
  With the clock advancing by one second per poll, and for any number of polls that
  spans at most a day, there is a poll \<open>k\<close> such that every earlier poll is before
  09:00:00, poll \<open>k\<close> is at or after 09:00:00 and less than one second after it, and
  the job runs exactly once, at poll \<open>k\<close>, if the polls get that far, and not at all
  otherwise.  Starting at 08:59:59, three polls (08:59:59, 09:00:00, 09:00:01) run the job
  once, at 09:00:00.
\<close>

theorem daily_job_fires_once_at_first_due_poll:
  assumes "startup L w = (Inr st0, w0)" and "n * usec_per_sec \<le> day_len"
  shows "\<exists>k. (\<forall>j<k. clock w0 + j * usec_per_sec < next_occurrence (clock w0))
     \<and> next_occurrence (clock w0) \<le> clock w0 + k * usec_per_sec
     \<and> clock w0 + k * usec_per_sec < next_occurrence (clock w0) + usec_per_sec
     \<and> next_occurrence (clock w0) mod day_len = at_0900
     \<and> clock w0 = clock w
     \<and> next_run st0 = next_occurrence (clock w0)
     \<and> \<not> isl (fst (main L n w))
     \<and> fired_at (logfile (snd (main L n w))) =
         fired_at (logfile w0) @ (if k < n then [clock w0 + k * usec_per_sec] else [])"
proof -
  let ?T = "next_occurrence (clock w0)"
  let ?k = "(?T - clock w0 + usec_per_sec - 1) div usec_per_sec"
  note s = startup_Inr_state [OF assms(1)]
  have st0: "st0 = every_day_at_0900_do (frame st0) w0"
    by (rule s(1))
  have tT: "clock w0 < ?T"
    by (rule next_occurrence_after)
  have k1: "?T \<le> clock w0 + ?k * usec_per_sec"
    and k2: "clock w0 + ?k * usec_per_sec < ?T + usec_per_sec"
    and k3: "j < ?k \<Longrightarrow> clock w0 + j * usec_per_sec < ?T" for j
    using first_tick(1,2) [of "?T - clock w0"] first_tick(3) [of j "?T - clock w0"] tT
    by linarith+
  have nr: "next_run st0 = ?T"
    by (subst st0) (simp add: every_day_at_0900_do_def)
  from steady_state_fires_once [OF s(2) assms(2), of L w0]
  have run: "fst (steady_state L n st0) = Inr ()"
    "fired_at (logfile (world (snd (steady_state L n st0)))) =
       fired_at (logfile w0) @ (if ?k < n then [clock w0 + ?k * usec_per_sec] else [])"
    unfolding st0 [symmetric] by simp_all
  have "\<not> isl (fst (main L n w))"
    by (simp add: main_after_startup [OF assms(1)] run(1))
  moreover have "fired_at (logfile (snd (main L n w))) =
       fired_at (logfile w0) @ (if ?k < n then [clock w0 + ?k * usec_per_sec] else [])"
    by (simp only: main_after_startup [OF assms(1)] run(2))
  ultimately show ?thesis
    using k1 k2 k3 next_occurrence_mod [of "clock w0"] s(3) nr by blast
qed

theorem daily_job_fires_once_at_first_due_poll_witness:
  "startup (ref_lib insurance_raw) world_0859
     = (Inr (every_day_at_0900_do insurance_processed (snd (startup (ref_lib insurance_raw) world_0859))),
        snd (startup (ref_lib insurance_raw) world_0859))
   \<and> 3 * usec_per_sec \<le> day_len
   \<and> clock (snd (startup (ref_lib insurance_raw) world_0859)) = 32399000000
   \<and> next_occurrence 32399000000 = 32400000000
   \<and> \<not> isl (fst (main (ref_lib insurance_raw) 3 world_0859))
   \<and> fired_at (logfile (snd (main (ref_lib insurance_raw) 3 world_0859)))
       = fired_at (logfile (snd (startup (ref_lib insurance_raw) world_0859))) @ [32400000000]"
proof -
  let ?L = "ref_lib insurance_raw"
  from ref_startup obtain w4 where
    s: "startup ?L world_0859 = (Inr (every_day_at_0900_do insurance_processed w4), w4)"
    and c: "clock w4 = 32399000000"
    by blast
  have h: "3 * usec_per_sec \<le> day_len"
    by (simp add: usec_per_sec_def day_len_def)
  have T: "next_occurrence 32399000000 = 32400000000"
    by (simp add: next_occurrence_def day_len_def at_0900_def usec_per_sec_def)
  from daily_job_fires_once_at_first_due_poll [OF s h] obtain k where
    k: "next_occurrence (clock w4) \<le> clock w4 + k * usec_per_sec"
      "clock w4 + k * usec_per_sec < next_occurrence (clock w4) + usec_per_sec"
    and r: "\<not> isl (fst (main ?L 3 world_0859))"
      "fired_at (logfile (snd (main ?L 3 world_0859))) =
         fired_at (logfile w4) @ (if k < 3 then [clock w4 + k * usec_per_sec] else [])"
    by blast
  from k have "k = 1"
    by (simp add: c T usec_per_sec_def)
  with r s c h T show ?thesis
    by (simp add: usec_per_sec_def)
qed

subsection \<open>The scheduled job and the disk\<close>

lemma draw_chart_shape:
  "\<exists>rv cs. \<forall>w. draw_chart L tbl key xl ttl pal w = (rv, w\<lparr>shown := shown w @ cs\<rparr>)"
proof (cases "plt_figure L")
  case (Some e)
  then have "\<forall>w. draw_chart L tbl key xl ttl pal w = (Inl e, w\<lparr>shown := shown w @ []\<rparr>)"
    by (simp add: draw_chart_def)
  then show ?thesis by blast
next
  case None
  show ?thesis
  proof (cases "groupby_mean L tbl key ''charges''")
    case (Inl e)
    with None have "\<forall>w. draw_chart L tbl key xl ttl pal w = (Inl e, w\<lparr>shown := shown w @ []\<rparr>)"
      by (simp add: draw_chart_def)
    then show ?thesis by blast
  next
    case (Inr g)
    let ?c = "\<lparr>title = ttl, xlabel = xl, ylabel = ''Average Charges ($)'', palette = pal, bars = g\<rparr>"
    show ?thesis
    proof (cases "render L ?c")
      case (Some e)
      with None Inr have "\<forall>w. draw_chart L tbl key xl ttl pal w = (Inl e, w\<lparr>shown := shown w @ []\<rparr>)"
        by (simp add: draw_chart_def)
      then show ?thesis by blast
    next
      case None': None
      with None Inr have "\<forall>w. draw_chart L tbl key xl ttl pal w = (Inr (), w\<lparr>shown := shown w @ [?c]\<rparr>)"
        by (simp add: draw_chart_def)
      then show ?thesis by blast
    qed
  qed
qed

lemma visualize_body_shape:
  "\<exists>rv cs. \<forall>w. visualize_body L tbl w = (rv, w\<lparr>shown := shown w @ cs\<rparr>)"
proof -
  from draw_chart_shape [of L tbl "''region''" "''Region''"
      "''Average Medical Insurance Charges by Region''" "''Blues''"]
  obtain r1 c1 where d1: "\<And>w. draw_chart L tbl ''region'' ''Region''
      ''Average Medical Insurance Charges by Region'' ''Blues'' w = (r1, w\<lparr>shown := shown w @ c1\<rparr>)"
    by blast
  from draw_chart_shape [of L tbl "''smoker''" "''Smoker Status''"
      "''Average Charges by Smoking Status''" "''Set1''"]
  obtain r2 c2 where d2: "\<And>w. draw_chart L tbl ''smoker'' ''Smoker Status''
      ''Average Charges by Smoking Status'' ''Set1'' w = (r2, w\<lparr>shown := shown w @ c2\<rparr>)"
    by blast
  show ?thesis
  proof (cases r1)
    case (Inl e)
    then have "\<forall>w. visualize_body L tbl w = (Inl e, w\<lparr>shown := shown w @ c1\<rparr>)"
      by (simp add: visualize_body_def d1)
    then show ?thesis by blast
  next
    case (Inr u)
    then have "\<forall>w. visualize_body L tbl w = (r2, w\<lparr>shown := shown w @ (c1 @ c2)\<rparr>)"
      by (simp add: visualize_body_def d1 d2)
    then show ?thesis by blast
  qed
qed

lemma automated_analysis_effect:
  assumes "getitem tbl ''age'' = Inr ags" and "list_all is_numeric ags"
    and "getitem tbl ''sex'' = Inr sx" and "getitem tbl ''charges'' = Inr cs"
    and "list_all is_numeric cs" and "getitem tbl ''region'' = Inr rg"
    and vis: "\<forall>w. visualize_body L tbl w = (rv, w\<lparr>shown := shown w @ charts\<rparr>)"
  shows "automated_analysis L tbl w =
     (Inr (), w\<lparr>logfile := logfile w @ map (Pair (clock w))
                  ([(INFO, AvgAge (round_nd L (fmean L ags) 2)),
                    (INFO, SexDistribution (value_counts sx)),
                    (INFO, AvgCharges (round_nd L (fmean L cs) 2)),
                    (INFO, UniqueRegions (unique rg))]
                   @ (case rv of Inl e \<Rightarrow> [(ERROR, ErrorVisualizing e)] | Inr u \<Rightarrow> [])),
                shown := shown w @ charts\<rparr>)"
proof -
  let ?w4 = "w\<lparr>logfile := logfile w @
                  [(clock w, INFO, AvgAge (round_nd L (fmean L ags) 2)),
                   (clock w, INFO, SexDistribution (value_counts sx)),
                   (clock w, INFO, AvgCharges (round_nd L (fmean L cs) 2)),
                   (clock w, INFO, UniqueRegions (unique rg))]\<rparr>"
  have aa: "automated_analysis L tbl w = visualize_data L tbl ?w4"
    by (rule automated_analysis_analyzable [OF assms(1-6)])
  from vis have vb: "visualize_body L tbl ?w4 = (rv, ?w4\<lparr>shown := shown ?w4 @ charts\<rparr>)"
    by blast
  show ?thesis
    by (cases rv) (simp_all add: aa visualize_data_def vb logging_error_def)
qed

lemma run_pending_effect:
  assumes "\<forall>w. automated_analysis L tbl w =
     (Inr (), w\<lparr>logfile := logfile w @ map (Pair (clock w)) recs, shown := shown w @ charts\<rparr>)"
    and "frame st = tbl"
  shows "run_pending L st =
     (Inr (),
      if next_run st \<le> clock (world st)
      then st\<lparr>next_run := next_occurrence (clock (world st)),
              world := (world st)\<lparr>logfile := logfile (world st) @ map (Pair (clock (world st))) recs,
                                  shown := shown (world st) @ charts\<rparr>\<rparr>
      else st)"
  using assms by (simp add: run_pending_def)

lemma found_on_disk_simps:
  "frame (found_on_disk fs st) = frame st"
  "next_run (found_on_disk fs st) = next_run st"
  "clock (world (found_on_disk fs st)) = clock (world st)"
  "logfile (world (found_on_disk fs st)) = logfile (world st)"
  "shown (world (found_on_disk fs st)) = shown (world st)"
  "files (world (found_on_disk fs st)) = fs"
  by (simp_all add: found_on_disk_def)

lemma found_on_disk_same: "found_on_disk (files (world st)) st = st"
  by (simp add: found_on_disk_def)

lemma steady_state_on_unchanged_disk:
  "steady_state_on L (replicate n (files (world st))) st = steady_state L n st"
proof (induction n arbitrary: st)
  case 0
  show ?case by simp
next
  case (Suc n)
  obtain r st1 where rp: "run_pending L st = (r, st1)"
    by (cases "run_pending L st")
  with run_pending_invariant(1) [of L st] have "files (world (time_sleep 1 st1)) = files (world st)"
    by (simp add: time_sleep_simps)
  with Suc.IH [of "time_sleep 1 st1"] rp show ?case
    by (cases r) (simp_all add: found_on_disk_same)
qed

lemma steady_state_on_independent:
  assumes eff: "\<forall>w. automated_analysis L tbl w =
     (Inr (), w\<lparr>logfile := logfile w @ map (Pair (clock w)) recs, shown := shown w @ charts\<rparr>)"
    and "frame st1 = tbl" and "frame st2 = tbl" and "next_run st1 = next_run st2"
    and "clock (world st1) = clock (world st2)" and "logfile (world st1) = logfile (world st2)"
    and "shown (world st1) = shown (world st2)"
  shows "fst (steady_state_on L disk st1) = Inr ()
     \<and> frame (snd (steady_state_on L disk st1)) = tbl
     \<and> files (world (snd (steady_state_on L disk st1))) = last (files (world st1) # disk)
     \<and> next_run (snd (steady_state_on L disk st1)) = next_run (snd (steady_state L (length disk) st2))
     \<and> clock (world (snd (steady_state_on L disk st1))) = clock (world (snd (steady_state L (length disk) st2)))
     \<and> logfile (world (snd (steady_state_on L disk st1))) = logfile (world (snd (steady_state L (length disk) st2)))
     \<and> shown (world (snd (steady_state_on L disk st1))) = shown (world (snd (steady_state L (length disk) st2)))"
  using assms(2-)
proof (induction disk arbitrary: st1 st2)
  case Nil
  then show ?case by simp
next
  case (Cons fs disk)
  let ?s1 = "found_on_disk fs st1"
  have f1: "frame ?s1 = tbl"
    using Cons.prems by (simp add: found_on_disk_simps)
  note r1 = run_pending_effect [OF eff f1]
  note r2 = run_pending_effect [OF eff Cons.prems(2)]
  define a1 where "a1 = time_sleep 1 (snd (run_pending L ?s1))"
  define a2 where "a2 = time_sleep 1 (snd (run_pending L st2))"
  have rel: "frame a1 = tbl" "frame a2 = tbl" "next_run a1 = next_run a2"
    "clock (world a1) = clock (world a2)" "logfile (world a1) = logfile (world a2)"
    "shown (world a1) = shown (world a2)" "files (world a1) = fs"
    using Cons.prems
    by (simp_all add: a1_def a2_def r1 r2 time_sleep_def found_on_disk_simps)
  have s1: "steady_state_on L (fs # disk) st1 = steady_state_on L disk a1"
    by (simp add: a1_def r1)
  have s2: "steady_state L (length (fs # disk)) st2 = steady_state L (length disk) a2"
    by (simp add: a2_def r2)
  from Cons.IH [OF rel(1-6)] show ?case
    unfolding s1 s2 by (simp add: rel(7))
qed

text \<open>
  Claim C2.  The scheduled job works on the table that the Transformer produced at
  startup and on nothing else.  Whatever the state and whatever is on disk, as long as
  \<open>df\<close> holds that table, a poll that finds the job due logs the four results of the
  Analyzer on that table (with the visualization error, if there is one) and displays the
  charts of that table, and a poll that does not find it due changes nothing.  The loop
  never assigns \<open>df\<close>, so this holds at every iteration: when other processes rewrite or
  delete the input file before each poll, the loop logs and displays exactly what it logs
  and displays on an untouched disk, it raises nothing, it leaves the disk as it finds it,
  and it logs no record of the Loader, the Transformer or the Persister, each of which
  logs on every call.
\<close>

theorem scheduled_runs_reuse_startup_table:
  assumes "startup L w = (Inr st0, w0)"
  shows "\<exists>tbl0 a s c r rv charts.
       read_csv L ''insurance.csv'' w = Inr tbl0
     \<and> process_body L tbl0 = (Inr (), frame st0)
     \<and> world st0 = w0
     \<and> analyze_ages L \<lparr>df = frame st0\<rparr> = Inr a
     \<and> analyze_sexes \<lparr>df = frame st0\<rparr> = Inr s
     \<and> average_charges L \<lparr>df = frame st0\<rparr> = Inr c
     \<and> unique_regions \<lparr>df = frame st0\<rparr> = Inr r
     \<and> (\<forall>w'. visualize_body L (frame st0) w' = (rv, w'\<lparr>shown := shown w' @ charts\<rparr>))
     \<and> (\<forall>st. frame st = frame st0 \<longrightarrow>
            run_pending L st =
              (Inr (),
               if next_run st \<le> clock (world st)
               then st\<lparr>next_run := next_occurrence (clock (world st)),
                       world := (world st)
                         \<lparr>logfile := logfile (world st) @ map (Pair (clock (world st)))
                            ([(INFO, AvgAge a), (INFO, SexDistribution s),
                              (INFO, AvgCharges c), (INFO, UniqueRegions r)]
                             @ (case rv of Inl e \<Rightarrow> [(ERROR, ErrorVisualizing e)] | Inr u \<Rightarrow> [])),
                          shown := shown (world st) @ charts\<rparr>\<rparr>
               else st))
     \<and> (\<forall>disk.
            fst (steady_state_on L disk st0) = Inr ()
          \<and> frame (snd (steady_state_on L disk st0)) = frame st0
          \<and> files (world (snd (steady_state_on L disk st0))) = last (files w0 # disk)
          \<and> next_run (snd (steady_state_on L disk st0))
              = next_run (snd (steady_state L (length disk) st0))
          \<and> clock (world (snd (steady_state_on L disk st0)))
              = clock (world (snd (steady_state L (length disk) st0)))
          \<and> logfile (world (snd (steady_state_on L disk st0)))
              = logfile (world (snd (steady_state L (length disk) st0)))
          \<and> shown (world (snd (steady_state_on L disk st0)))
              = shown (world (snd (steady_state L (length disk) st0)))
          \<and> (\<exists>added. logfile (world (snd (steady_state_on L disk st0))) = logfile w0 @ added
                \<and> list_all (\<lambda>r. \<not> stage_msg (snd (snd r))) added))
     \<and> (\<forall>n. steady_state L n st0 = steady_state_on L (replicate n (files w0)) st0
          \<and> snd (main L n w) = world (snd (steady_state L n st0)))"
proof -
  let ?tbl = "frame st0"
  from startup_Inr_D [OF assms] obtain tbl0 where
    a: "read_csv L ''insurance.csv'' w = Inr tbl0" "process_body L tbl0 = (Inr (), ?tbl)"
    and b: "world st0 = w0"
    by blast
  from analyzable_columns [OF startup_Inr_state(2) [OF assms]] obtain ags sx cs rg where
    cols: "getitem ?tbl ''age'' = Inr ags" "list_all is_numeric ags"
      "getitem ?tbl ''sex'' = Inr sx" "getitem ?tbl ''charges'' = Inr cs"
      "list_all is_numeric cs" "getitem ?tbl ''region'' = Inr rg"
    by blast
  from visualize_body_shape [of L ?tbl] obtain rv charts where
    vis: "\<forall>w'. visualize_body L ?tbl w' = (rv, w'\<lparr>shown := shown w' @ charts\<rparr>)"
    by blast
  define recs where "recs =
    [(INFO, AvgAge (round_nd L (fmean L ags) 2)), (INFO, SexDistribution (value_counts sx)),
     (INFO, AvgCharges (round_nd L (fmean L cs) 2)), (INFO, UniqueRegions (unique rg))]
    @ (case rv of Inl e \<Rightarrow> [(ERROR, ErrorVisualizing e)] | Inr u \<Rightarrow> [])"
  have q: "analyze_ages L \<lparr>df = ?tbl\<rparr> = Inr (round_nd L (fmean L ags) 2)"
    "analyze_sexes \<lparr>df = ?tbl\<rparr> = Inr (value_counts sx)"
    "average_charges L \<lparr>df = ?tbl\<rparr> = Inr (round_nd L (fmean L cs) 2)"
    "unique_regions \<lparr>df = ?tbl\<rparr> = Inr (unique rg)"
    using cols
    by (simp_all add: analyze_ages_def analyze_sexes_def average_charges_def unique_regions_def mean_def)
  have eff: "\<forall>w. automated_analysis L ?tbl w =
     (Inr (), w\<lparr>logfile := logfile w @ map (Pair (clock w)) recs, shown := shown w @ charts\<rparr>)"
    unfolding recs_def using automated_analysis_effect [OF cols vis] by blast
  have poll: "\<forall>st. frame st = ?tbl \<longrightarrow>
            run_pending L st =
              (Inr (),
               if next_run st \<le> clock (world st)
               then st\<lparr>next_run := next_occurrence (clock (world st)),
                       world := (world st)
                         \<lparr>logfile := logfile (world st) @ map (Pair (clock (world st))) recs,
                          shown := shown (world st) @ charts\<rparr>\<rparr>
               else st)"
    using run_pending_effect [OF eff] by blast
  have loop: "fst (steady_state_on L disk st0) = Inr ()
          \<and> frame (snd (steady_state_on L disk st0)) = ?tbl
          \<and> files (world (snd (steady_state_on L disk st0))) = last (files w0 # disk)
          \<and> next_run (snd (steady_state_on L disk st0))
              = next_run (snd (steady_state L (length disk) st0))
          \<and> clock (world (snd (steady_state_on L disk st0)))
              = clock (world (snd (steady_state L (length disk) st0)))
          \<and> logfile (world (snd (steady_state_on L disk st0)))
              = logfile (world (snd (steady_state L (length disk) st0)))
          \<and> shown (world (snd (steady_state_on L disk st0)))
              = shown (world (snd (steady_state L (length disk) st0)))" for disk
    using steady_state_on_independent [OF eff, of st0 st0 disk] by (simp add: b)
  have stage: "\<exists>added. logfile (world (snd (steady_state_on L disk st0))) = logfile w0 @ added
                \<and> list_all (\<lambda>r. \<not> stage_msg (snd (snd r))) added" for disk
    using steady_state_invariant [of L "length disk" st0] loop [of disk] by (simp add: b)
  have same: "steady_state L n st0 = steady_state_on L (replicate n (files w0)) st0" for n
    using steady_state_on_unchanged_disk [of L n st0] by (simp add: b)
  have m: "snd (main L n w) = world (snd (steady_state L n st0))" for n
    by (rule main_after_startup(1) [OF assms])
  show ?thesis
    using a b q vis poll [unfolded recs_def] loop stage same m by blast
qed

theorem scheduled_runs_reuse_startup_table_witness:
  "startup (ref_lib insurance_raw) world_0859
     = (Inr (every_day_at_0900_do insurance_processed (snd (startup (ref_lib insurance_raw) world_0859))),
        snd (startup (ref_lib insurance_raw) world_0859))
   \<and> read_csv (ref_lib insurance_raw) ''insurance.csv'' world_0859 = Inr insurance_raw
   \<and> process_body (ref_lib insurance_raw) insurance_raw = (Inr (), insurance_processed)
   \<and> run_pending (ref_lib insurance_raw)
        \<lparr>frame = insurance_processed, next_run = 32400000000,
         world = \<lparr>clock = 32400000000, logfile = [], files = Map.empty, shown = []\<rparr>\<rparr>
       = (Inr (),
          \<lparr>frame = insurance_processed, next_run = 118800000000,
           world = \<lparr>clock = 32400000000,
             logfile =
               [(32400000000, INFO, AvgAge 26),
                (32400000000, INFO, SexDistribution [(CStr ''female'', 1), (CStr ''male'', 1)]),
                (32400000000, INFO, AvgCharges (171225 / 100)),
                (32400000000, INFO, UniqueRegions [CStr ''southwest'', CStr ''southeast''])],
             files = Map.empty,
             shown =
               [\<lparr>title = ''Average Medical Insurance Charges by Region'', xlabel = ''Region'',
                 ylabel = ''Average Charges ($)'', palette = ''Blues'',
                 bars = [(CStr ''southwest'', 1700), (CStr ''southeast'', 3449 / 2)]\<rparr>,
                \<lparr>title = ''Average Charges by Smoking Status'', xlabel = ''Smoker Status'',
                 ylabel = ''Average Charges ($)'', palette = ''Set1'',
                 bars = [(CStr ''yes'', 1700), (CStr ''no'', 3449 / 2)]\<rparr>]\<rparr>\<rparr>)
   \<and> fst (steady_state_on (ref_lib insurance_raw)
          [Map.empty, [''insurance.csv'' \<mapsto> ''age,charges''], Map.empty]
          (every_day_at_0900_do insurance_processed (snd (startup (ref_lib insurance_raw) world_0859))))
       = Inr ()
   \<and> frame (snd (steady_state_on (ref_lib insurance_raw)
          [Map.empty, [''insurance.csv'' \<mapsto> ''age,charges''], Map.empty]
          (every_day_at_0900_do insurance_processed (snd (startup (ref_lib insurance_raw) world_0859)))))
       = insurance_processed
   \<and> files (world (snd (steady_state_on (ref_lib insurance_raw)
          [Map.empty, [''insurance.csv'' \<mapsto> ''age,charges''], Map.empty]
          (every_day_at_0900_do insurance_processed (snd (startup (ref_lib insurance_raw) world_0859))))))
       = Map.empty
   \<and> logfile (world (snd (steady_state_on (ref_lib insurance_raw)
          [Map.empty, [''insurance.csv'' \<mapsto> ''age,charges''], Map.empty]
          (every_day_at_0900_do insurance_processed (snd (startup (ref_lib insurance_raw) world_0859))))))
       = logfile (world (snd (steady_state (ref_lib insurance_raw) 3
          (every_day_at_0900_do insurance_processed (snd (startup (ref_lib insurance_raw) world_0859))))))"
proof -
  let ?L = "ref_lib insurance_raw"
  let ?disk = "[Map.empty, [''insurance.csv'' \<mapsto> ''age,charges''], Map.empty]"
  let ?cr = "\<lparr>title = ''Average Medical Insurance Charges by Region'', xlabel = ''Region'',
                 ylabel = ''Average Charges ($)'', palette = ''Blues'',
                 bars = [(CStr ''southwest'', 1700 :: rat), (CStr ''southeast'', 3449 / 2)]\<rparr>"
  let ?cs = "\<lparr>title = ''Average Charges by Smoking Status'', xlabel = ''Smoker Status'',
                 ylabel = ''Average Charges ($)'', palette = ''Set1'',
                 bars = [(CStr ''yes'', 1700 :: rat), (CStr ''no'', 3449 / 2)]\<rparr>"
  let ?wd = "\<lparr>clock = 32400000000, logfile = [], files = Map.empty, shown = []\<rparr> :: rat world"
  from ref_startup obtain w4 where
    s: "startup ?L world_0859 = (Inr (every_day_at_0900_do insurance_processed w4), w4)"
    by blast
  let ?init = "every_day_at_0900_do insurance_processed w4"
  have fr: "frame ?init = insurance_processed"
    by (simp add: every_day_at_0900_do_def)
  from scheduled_runs_reuse_startup_table [OF s] obtain a sd c r rv charts where
    q: "analyze_ages ?L \<lparr>df = frame ?init\<rparr> = Inr a"
      "analyze_sexes \<lparr>df = frame ?init\<rparr> = Inr sd"
      "average_charges ?L \<lparr>df = frame ?init\<rparr> = Inr c"
      "unique_regions \<lparr>df = frame ?init\<rparr> = Inr r"
    and vis: "\<forall>w'. visualize_body ?L (frame ?init) w' = (rv, w'\<lparr>shown := shown w' @ charts\<rparr>)"
    and poll: "\<forall>st. frame st = frame ?init \<longrightarrow>
            run_pending ?L st =
              (Inr (),
               if next_run st \<le> clock (world st)
               then st\<lparr>next_run := next_occurrence (clock (world st)),
                       world := (world st)
                         \<lparr>logfile := logfile (world st) @ map (Pair (clock (world st)))
                            ([(INFO, AvgAge a), (INFO, SexDistribution sd),
                              (INFO, AvgCharges c), (INFO, UniqueRegions r)]
                             @ (case rv of Inl e \<Rightarrow> [(ERROR, ErrorVisualizing e)] | Inr u \<Rightarrow> [])),
                          shown := shown (world st) @ charts\<rparr>\<rparr>
               else st)"
    and loop: "fst (steady_state_on ?L ?disk ?init) = Inr ()"
      "frame (snd (steady_state_on ?L ?disk ?init)) = frame ?init"
      "files (world (snd (steady_state_on ?L ?disk ?init))) = last (files w4 # ?disk)"
      "logfile (world (snd (steady_state_on ?L ?disk ?init)))
         = logfile (world (snd (steady_state ?L (length ?disk) ?init)))"
    by blast
  have ev: "analyze_ages ?L \<lparr>df = insurance_processed\<rparr> = Inr 26"
    "analyze_sexes \<lparr>df = insurance_processed\<rparr> = Inr [(CStr ''female'', 1), (CStr ''male'', 1)]"
    "average_charges ?L \<lparr>df = insurance_processed\<rparr> = Inr (171225 / 100)"
    "unique_regions \<lparr>df = insurance_processed\<rparr> = Inr [CStr ''southwest'', CStr ''southeast'']"
    by (simp_all add: analyze_ages_def analyze_sexes_def average_charges_def unique_regions_def
          getitem_def mean_def insurance_processed_def ref_lib_def ref_fmean_def ref_round_def
          value_counts_def tally_def sort_values_desc_def unique_def floor_eq_iff)
  have a: "a = 26" and sd: "sd = [(CStr ''female'', 1), (CStr ''male'', 1)]"
    and c: "c = 171225 / 100" and r: "r = [CStr ''southwest'', CStr ''southeast'']"
    using q [unfolded fr] by (simp_all only: ev sum.inject)
  have "visualize_body ?L insurance_processed ?wd = (Inr (), ?wd\<lparr>shown := [?cr, ?cs]\<rparr>)"
    by (simp add: visualize_body_def draw_chart_def groupby_mean_def getitem_def
          insurance_processed_def ref_lib_def ref_group_means_def ref_fmean_def unique_def)
  with vis [unfolded fr] have "(rv, ?wd\<lparr>shown := shown ?wd @ charts\<rparr>) = (Inr (), ?wd\<lparr>shown := [?cr, ?cs]\<rparr>)"
    by simp
  then have rv: "rv = Inr ()" and charts: "charts = [?cr, ?cs]"
    by simp_all
  have T: "next_occurrence 32400000000 = 118800000000"
    by (simp add: next_occurrence_def day_len_def at_0900_def usec_per_sec_def)
  let ?due = "\<lparr>frame = insurance_processed, next_run = 32400000000, world = ?wd\<rparr>"
  from poll [unfolded fr] have "run_pending ?L ?due =
              (Inr (),
               if next_run ?due \<le> clock (world ?due)
               then ?due\<lparr>next_run := next_occurrence (clock (world ?due)),
                       world := (world ?due)
                         \<lparr>logfile := logfile (world ?due) @ map (Pair (clock (world ?due)))
                            ([(INFO, AvgAge a), (INFO, SexDistribution sd),
                              (INFO, AvgCharges c), (INFO, UniqueRegions r)]
                             @ (case rv of Inl e \<Rightarrow> [(ERROR, ErrorVisualizing e)] | Inr u \<Rightarrow> [])),
                          shown := shown (world ?due) @ charts\<rparr>\<rparr>
               else ?due)"
    by simp
  then have due: "run_pending ?L ?due =
       (Inr (),
          \<lparr>frame = insurance_processed, next_run = 118800000000,
           world = \<lparr>clock = 32400000000,
             logfile =
               [(32400000000, INFO, AvgAge 26),
                (32400000000, INFO, SexDistribution [(CStr ''female'', 1), (CStr ''male'', 1)]),
                (32400000000, INFO, AvgCharges (171225 / 100)),
                (32400000000, INFO, UniqueRegions [CStr ''southwest'', CStr ''southeast''])],
             files = Map.empty, shown = [?cr, ?cs]\<rparr>\<rparr>)"
    by (simp add: a sd c r rv charts T)
  have w4: "snd (startup ?L world_0859) = w4"
    by (simp add: s)
  have "last (files w4 # ?disk) = Map.empty"
    by simp
  with loop(3) have l3: "files (world (snd (steady_state_on ?L ?disk ?init))) = Map.empty"
    by (rule trans)
  have "length ?disk = 3"
    by simp
  with loop(4) have l4: "logfile (world (snd (steady_state_on ?L ?disk ?init)))
         = logfile (world (snd (steady_state ?L 3 ?init)))"
    by (simp only:)
  note l2 = loop(2) [unfolded fr]
  show ?thesis
    unfolding w4
    by (intro conjI)
       (rule s, rule ref_read_insurance, rule ref_process_insurance, rule due,
        rule loop(1), rule l2, rule l3, rule l4)
qed

end
